theory Spec2Isabelle
  imports Main "HOL-Library.Sublist" "HOL-Library.AList"
begin

section \<open>The file system cache bin of osgEarth (FileSystemCache.cpp)\<close>

text \<open>
  A shallow embedding of \<^verbatim>\<open>FileSystemCacheBin\<close> and of its \<^verbatim>\<open>WriteOperation\<close>.
  The member functions become functions from a state to a result and a new state.
  The state holds the fields of the bin, the disk, and a trace of the effects the
  code performs in order (gate acquisitions, file system calls, codec calls, overlay
  accesses, warnings), so that statements about what a call does or does not touch
  can be made. Left out: the merging of the reader-writer options, the network
  monitor, the debug notices, \<^verbatim>\<open>readString\<close> and \<^verbatim>\<open>touch\<close>.
\<close>

subsection \<open>Data\<close>

type_synonym path = string
type_synonym TimeStamp = nat

text \<open>\<^verbatim>\<open>Config\<close>: the metadata, an open list of attributes; \<^verbatim>\<open>empty()\<close> is \<open>[]\<close>.\<close>

type_synonym Config = "(string \<times> string) list"

text \<open>
  \<^verbatim>\<open>osg::Object\<close> with the three run-time categories the code distinguishes by
  \<^verbatim>\<open>dynamic_cast\<close>: \<^verbatim>\<open>osg::Image\<close>, \<^verbatim>\<open>osg::Node\<close>, anything else. A pointer to an
  object is an \<open>Object option\<close>, \<open>None\<close> the null pointer.
\<close>

datatype Object = Image string | Node string | Generic string

fun isImage :: "Object \<Rightarrow> bool" where
  "isImage (Image d) = True"
| "isImage (Node d) = False"
| "isImage (Generic d) = False"

fun isNode :: "Object \<Rightarrow> bool" where
  "isNode (Image d) = False"
| "isNode (Node d) = True"
| "isNode (Generic d) = False"

text \<open>
  The disk: literal path strings mapped to nodes. A regular file holds what was
  written to it: an object serialized by the codec, a metadata document, or bytes
  that are neither.
\<close>

datatype content = Serialized Object | Json Config | Bytes string

datatype node = RegularFile content TimeStamp | Directory

datatype FileType = FILE_NOT_FOUND | REGULAR_FILE | DIRECTORY

datatype RecordStatus = STATUS_NOT_FOUND | STATUS_OK

text \<open>
  \<^verbatim>\<open>ReadResult\<close>: either no object (\<^verbatim>\<open>RESULT_NOT_FOUND\<close>), or an object
  pointer with its metadata and last-modified time.
\<close>

datatype ReadResult = RESULT_NOT_FOUND | Found "Object option" Config TimeStamp

text \<open>
  Modelled from the spec: the default-constructed \<^verbatim>\<open>ReadResult()\<close> of osgEarth's
  IOTypes header, which is not among the sources. The spec says that failed reads
  look identical to cache misses.
\<close>

definition ReadResult_default :: ReadResult where
  "ReadResult_default = RESULT_NOT_FOUND"

record WriteCacheRecord =
  meta :: Config
  object :: Object

text \<open>The fields of a \<^verbatim>\<open>WriteOperation\<close> (the bin and the options are left out).\<close>

record WriteOperation =
  op_uri :: path
  op_object :: Object
  op_meta :: Config

datatype event =
    GateAcquire path
  | GateRelease path
  | FsExists path
  | FsMTime path
  | FsMkdir path
  | FsList path
  | FsType path
  | FsUnlink path int
  | RwRead path
  | RwWrite path bool
  | MetaRead path
  | MetaWrite path
  | OverlayFind path
  | OverlayPut path
  | OverlayErase path
  | PoolRun path
  | Warn string

text \<open>
  The state. The first block is the bin:
  \<^item> \<open>binID\<close> is \<^verbatim>\<open>getID()\<close>; \<open>ok\<close>, \<open>binPathExists\<close>, \<open>metaPath\<close>, \<open>binPath\<close>,
    \<open>writeCache\<close> are the members \<^verbatim>\<open>_ok\<close>, \<^verbatim>\<open>_binPathExists\<close>, \<^verbatim>\<open>_metaPath\<close>,
    \<^verbatim>\<open>_binPath\<close>, \<^verbatim>\<open>_writeCache\<close>;
  \<^item> \<open>rw\<close> is \<^verbatim>\<open>_rw.valid()\<close>;
  \<^item> \<open>threadPool\<close> is \<open>None\<close> for a null \<^verbatim>\<open>_threadPool\<close>, otherwise the operations
    that were handed to the pool and have not run yet;
  \<^item> \<open>uri_full key referrer\<close> is \<^verbatim>\<open>URI(key, referrer).full()\<close>, the key turned into a
    path; osgEarth's URI class is not among the sources, so it is a parameter.
  The second block is the environment: the disk, a clock for modification times,
  and what decides whether a write, an unlink or a mkdir is refused by the system.
  The last field is the trace.
\<close>

record state =
  binID :: string
  ok :: bool
  binPathExists :: bool
  metaPath :: path
  binPath :: path
  threadPool :: "WriteOperation list option"
  writeCache :: "path \<rightharpoonup> WriteCacheRecord"
  rw :: bool
  uri_full :: "string \<Rightarrow> path \<Rightarrow> path"
  files :: "(path \<times> node) list"
  clock :: TimeStamp
  write_fails :: "path \<Rightarrow> bool"
  unlink_fails :: "path \<Rightarrow> bool"
  mkdir_fails :: "path \<Rightarrow> bool"
  trace :: "event list"

definition OSG_EXT :: string where
  "OSG_EXT = ''.osgb''"

subsection \<open>The environment: osgDB, the codec, the gate\<close>

definition emit :: "event \<Rightarrow> state \<Rightarrow> state" where
  "emit e st = st\<lparr>trace := trace st @ [e]\<rparr>"

definition isDelimiter :: "char \<Rightarrow> bool" where
  "isDelimiter c = (c = CHR ''/'' \<or> c = CHR 0x5C)"

text \<open>
  \<^verbatim>\<open>osgDB::concatPaths\<close> on a system whose native delimiter is the slash: a
  trailing delimiter of the left part is not doubled, a trailing backslash is
  replaced.
\<close>

definition concatPaths :: "path \<Rightarrow> path \<Rightarrow> path" where
  "concatPaths left right =
     (if left = [] then right
      else if last left = CHR ''/'' then left @ right
      else if last left = CHR 0x5C then butlast left @ ''/'' @ right
      else left @ ''/'' @ right)"

text \<open>\<^verbatim>\<open>osgDB::getFilePath\<close>: what precedes the last delimiter, or the empty string.\<close>

fun getFilePath :: "path \<Rightarrow> path" where
  "getFilePath [] = []"
| "getFilePath (c # cs) =
     (if list_ex isDelimiter cs then c # getFilePath cs else [])"

text \<open>\<^verbatim>\<open>osgDB::fileExists\<close>: true of directories as well as of files.\<close>

definition fileExists :: "path \<Rightarrow> state \<Rightarrow> bool \<times> state" where
  "fileExists p st = (map_of (files st) p \<noteq> None, emit (FsExists p) st)"

definition fileType :: "path \<Rightarrow> state \<Rightarrow> FileType \<times> state" where
  "fileType p st =
     ((case map_of (files st) p of
         None \<Rightarrow> FILE_NOT_FOUND
       | Some Directory \<Rightarrow> DIRECTORY
       | Some (RegularFile c t) \<Rightarrow> REGULAR_FILE),
      emit (FsType p) st)"

text \<open>
  Modelled from the spec: \<^verbatim>\<open>osgEarth::getLastModifiedTime\<close> of osgEarth's FileUtils,
  which is not among the sources: the last-modified time of the file.
\<close>

definition getLastModifiedTime :: "path \<Rightarrow> state \<Rightarrow> TimeStamp \<times> state" where
  "getLastModifiedTime p st =
     ((case map_of (files st) p of
         Some (RegularFile c t) \<Rightarrow> t
       | Some Directory \<Rightarrow> 0
       | None \<Rightarrow> 0),
      emit (FsMTime p) st)"

text \<open>
  \<^verbatim>\<open>::unlink\<close>: 0 when a regular file was removed, -1 otherwise. It fails on a
  path that does not exist, on a directory, and where the system refuses.
\<close>

definition unlink :: "path \<Rightarrow> state \<Rightarrow> int \<times> state" where
  "unlink p st =
     (case map_of (files st) p of
        Some (RegularFile c t) \<Rightarrow>
          if unlink_fails st p then (- 1, emit (FsUnlink p (- 1)) st)
          else (0, emit (FsUnlink p 0) (st\<lparr>files := AList.delete p (files st)\<rparr>))
      | Some Directory \<Rightarrow> (- 1, emit (FsUnlink p (- 1)) st)
      | None \<Rightarrow> (- 1, emit (FsUnlink p (- 1)) st))"

text \<open>The directories that \<^verbatim>\<open>mkdir -p\<close> goes through, outermost first.\<close>

definition dir_chain :: "path \<Rightarrow> path list" where
  "dir_chain p = [take i p. i \<leftarrow> [1..<length p], isDelimiter (p ! i)] @ [p]"

definition mkdir1 :: "(path \<Rightarrow> bool) \<Rightarrow> path \<Rightarrow> (path \<times> node) list \<Rightarrow> (path \<times> node) list" where
  "mkdir1 refused d fs =
     (if map_of fs d = None \<and> \<not> refused d then AList.update d Directory fs else fs)"

text \<open>
  Modelled from the spec: \<^verbatim>\<open>osgEarth::makeDirectoryForFile\<close> of osgEarth's FileUtils,
  which is not among the sources. The spec's write task "ensures the parent
  directory exists": the directory of the file and the directories above it are
  created where they are missing and the system allows it.
\<close>

definition makeDirectoryForFile :: "path \<Rightarrow> state \<Rightarrow> state" where
  "makeDirectoryForFile p st =
     (let d = getFilePath p in
      if d = [] then emit (FsMkdir d) st
      else emit (FsMkdir d)
             (st\<lparr>files := fold (mkdir1 (mkdir_fails st)) (dir_chain d) (files st)\<rparr>))"

text \<open>
  The codec \<^verbatim>\<open>_rw\<close> (an \<^verbatim>\<open>osgDB::ReaderWriter\<close>). A write that succeeds leaves
  the serialized object in the file, with the current time; a write that fails
  leaves the disk as it was. The three entry points encode in the same way.
\<close>

definition rw_write :: "Object \<Rightarrow> path \<Rightarrow> state \<Rightarrow> bool \<times> state" where
  "rw_write obj p st =
     (if write_fails st p \<or> map_of (files st) p = Some Directory
      then (False, emit (RwWrite p False) st)
      else (True, emit (RwWrite p True)
                    (st\<lparr>files := AList.update p (RegularFile (Serialized obj) (clock st)) (files st),
                       clock := Suc (clock st)\<rparr>)))"

definition rw_writeImage :: "Object \<Rightarrow> path \<Rightarrow> state \<Rightarrow> bool \<times> state" where
  "rw_writeImage = rw_write"

definition rw_writeNode :: "Object \<Rightarrow> path \<Rightarrow> state \<Rightarrow> bool \<times> state" where
  "rw_writeNode = rw_write"

definition rw_writeObject :: "Object \<Rightarrow> path \<Rightarrow> state \<Rightarrow> bool \<times> state" where
  "rw_writeObject = rw_write"

text \<open>A read succeeds on a regular file that holds a serialized object.\<close>

definition rw_readObject :: "path \<Rightarrow> state \<Rightarrow> Object option \<times> state" where
  "rw_readObject p st =
     ((case map_of (files st) p of
         Some (RegularFile (Serialized obj) t) \<Rightarrow> Some obj
       | Some (RegularFile (Json m) t) \<Rightarrow> None
       | Some (RegularFile (Bytes b) t) \<Rightarrow> None
       | Some Directory \<Rightarrow> None
       | None \<Rightarrow> None),
      emit (RwRead p) st)"

definition rw_readImage :: "path \<Rightarrow> state \<Rightarrow> Object option \<times> state" where
  "rw_readImage p st =
     ((case map_of (files st) p of
         Some (RegularFile (Serialized obj) t) \<Rightarrow> (if isImage obj then Some obj else None)
       | Some (RegularFile (Json m) t) \<Rightarrow> None
       | Some (RegularFile (Bytes b) t) \<Rightarrow> None
       | Some Directory \<Rightarrow> None
       | None \<Rightarrow> None),
      emit (RwRead p) st)"

text \<open>
  Modelled from the spec: the \<^verbatim>\<open>Gate\<close> and \<^verbatim>\<open>ScopedGate\<close> of osgEarth's Threading
  header, which is not among the sources. The spec's gate blocks the caller
  until no other thread holds the lock of the key, marks it held, and unmarks it
  on release. The embedding follows one thread of control, where an acquisition
  does not block: the two calls are recorded in the trace. A \<^verbatim>\<open>ScopedGate\<close>
  acquires where it is declared and releases on every way out of its scope.
\<close>

definition gate_acquire :: "path \<Rightarrow> state \<Rightarrow> state" where
  "gate_acquire k st = emit (GateAcquire k) st"

definition gate_release :: "path \<Rightarrow> state \<Rightarrow> state" where
  "gate_release k st = emit (GateRelease k) st"

subsection \<open>writeMeta, readMeta\<close>

text \<open>
  \<^verbatim>\<open>writeMeta\<close> opens the file for writing and, if that worked, writes the
  metadata as JSON; nothing is reported when it did not work.
\<close>

definition writeMeta :: "path \<Rightarrow> Config \<Rightarrow> state \<Rightarrow> state" where
  "writeMeta fullPath m st =
     (if write_fails st fullPath \<or> map_of (files st) fullPath = Some Directory
      then emit (MetaWrite fullPath) st
      else emit (MetaWrite fullPath)
             (st\<lparr>files := AList.update fullPath (RegularFile (Json m) (clock st)) (files st),
                clock := Suc (clock st)\<rparr>))"

text \<open>\<^verbatim>\<open>readMeta\<close> leaves the metadata empty when the file holds no metadata document.\<close>

definition readMeta :: "path \<Rightarrow> state \<Rightarrow> Config \<times> state" where
  "readMeta fullPath st =
     ((case map_of (files st) fullPath of
         Some (RegularFile (Json m) t) \<Rightarrow> m
       | Some (RegularFile (Serialized obj) t) \<Rightarrow> []
       | Some (RegularFile (Bytes b) t) \<Rightarrow> []
       | Some Directory \<Rightarrow> []
       | None \<Rightarrow> []),
      emit (MetaRead fullPath) st)"

subsection \<open>The constructor\<close>

definition FileSystemCacheBin ::
  "string \<Rightarrow> path \<Rightarrow> WriteOperation list option \<Rightarrow> bool \<Rightarrow> (string \<Rightarrow> path \<Rightarrow> path) \<Rightarrow>
   (path \<times> node) list \<Rightarrow> state" where
  "FileSystemCacheBin name rootPath pool rw_found resolve disk =
     \<lparr>binID = name,
      ok = True,
      binPathExists = False,
      metaPath = concatPaths (concatPaths rootPath name) ''osgearth_cacheinfo.json'',
      binPath = concatPaths rootPath name,
      threadPool = pool,
      writeCache = Map.empty,
      rw = rw_found,
      uri_full = resolve,
      files = disk,
      clock = 0,
      write_fails = (\<lambda>p. False),
      unlink_fails = (\<lambda>p. False),
      mkdir_fails = (\<lambda>p. False),
      trace = []\<rparr>"

subsection \<open>binValidForReading, binValidForWriting\<close>

definition binValidForReading :: "bool \<Rightarrow> state \<Rightarrow> bool \<times> state" where
  "binValidForReading silent st =
     (if \<not> rw st then (False, st\<lparr>ok := False\<rparr>)
      else if \<not> binPathExists st then
        (let (found, st1) = fileExists (binPath st) st in
         if found then (True, st1\<lparr>binPathExists := True, ok := True\<rparr>)
         else if ok st1 then
           (let st2 = (if \<not> silent then emit (Warn ''Failed to locate cache bin'') st1 else st1)
            in (False, st2\<lparr>ok := False\<rparr>))
         else (ok st1, st1))
      else (ok st, st))"

definition binValidForWriting :: "bool \<Rightarrow> state \<Rightarrow> bool \<times> state" where
  "binValidForWriting silent st =
     (if \<not> rw st then (False, st\<lparr>ok := False\<rparr>)
      else if \<not> binPathExists st then
        (let st0 = makeDirectoryForFile (metaPath st) st;
             (found, st1) = fileExists (binPath st0) st0 in
         if found then (True, st1\<lparr>binPathExists := True, ok := True\<rparr>)
         else
           (let st2 = (if \<not> silent then emit (Warn ''FAILED to find or create cache bin'') st1 else st1)
            in (False, st2\<lparr>ok := False\<rparr>)))
      else (ok st, st))"

subsection \<open>readObject, readImage\<close>

definition readObject :: "string \<Rightarrow> state \<Rightarrow> ReadResult \<times> state" where
  "readObject key st =
     (let (valid, st1) = binValidForReading True st in
      if \<not> valid then (RESULT_NOT_FOUND, st1)
      else
        let fileURI = uri_full st1 key (metaPath st1);
            path = fileURI @ OSG_EXT;
            (found, st2) = fileExists path st1 in
        if \<not> found then (RESULT_NOT_FOUND, st2)
        else
          let (timeStamp, st3) = getLastModifiedTime path st2;
              st4 = gate_acquire fileURI st3;
              st5 = (if threadPool st4 \<noteq> None then emit (OverlayFind fileURI) st4 else st4) in
          case (if threadPool st5 \<noteq> None then writeCache st5 fileURI else None) of
            Some i \<Rightarrow> (Found (Some (object i)) (meta i) timeStamp, gate_release fileURI st5)
          | None \<Rightarrow>
              let (r, st6) = rw_readObject path st5 in
              (case r of
                 None \<Rightarrow> (ReadResult_default, gate_release fileURI st6)
               | Some obj \<Rightarrow>
                   let metafile = fileURI @ ''.meta'';
                       (hasMeta, st7) = fileExists metafile st6;
                       (m, st8) = (if hasMeta then readMeta metafile st7 else ([], st7)) in
                   (Found (Some obj) m timeStamp, gate_release fileURI st8)))"

definition readImage :: "string \<Rightarrow> state \<Rightarrow> ReadResult \<times> state" where
  "readImage key st =
     (let (valid, st1) = binValidForReading True st in
      if \<not> valid then (RESULT_NOT_FOUND, st1)
      else
        let fileURI = uri_full st1 key (metaPath st1);
            path = fileURI @ OSG_EXT;
            (found, st2) = fileExists path st1 in
        if \<not> found then (RESULT_NOT_FOUND, st2)
        else
          let (timeStamp, st3) = getLastModifiedTime path st2;
              st4 = gate_acquire fileURI st3;
              st5 = (if threadPool st4 \<noteq> None then emit (OverlayFind fileURI) st4 else st4) in
          case (if threadPool st5 \<noteq> None then writeCache st5 fileURI else None) of
            Some i \<Rightarrow>
              (Found (if isImage (object i) then Some (object i) else None) (meta i) timeStamp,
               gate_release fileURI st5)
          | None \<Rightarrow>
              let (r, st6) = rw_readImage path st5 in
              (case r of
                 None \<Rightarrow> (ReadResult_default, gate_release fileURI st6)
               | Some obj \<Rightarrow>
                   let metafile = fileURI @ ''.meta'';
                       (hasMeta, st7) = fileExists metafile st6;
                       (m, st8) = (if hasMeta then readMeta metafile st7 else ([], st7)) in
                   (Found (Some obj) m timeStamp, gate_release fileURI st8)))"

subsection \<open>WriteOperation, write\<close>

text \<open>\<^verbatim>\<open>WriteOperation::operator()\<close>.\<close>

definition WriteOperation_call :: "WriteOperation \<Rightarrow> state \<Rightarrow> state" where
  "WriteOperation_call w st =
     (let st1 = gate_acquire (op_uri w) st;
          (homeExists, st2) = fileExists (getFilePath (op_uri w)) st1;
          st3 = (if \<not> homeExists then makeDirectoryForFile (op_uri w) st2 else st2);
          (writeOK, st4) =
            (if isImage (op_object w) then rw_writeImage (op_object w) (op_uri w @ OSG_EXT) st3
             else if isNode (op_object w) then rw_writeNode (op_object w) (op_uri w @ OSG_EXT) st3
             else rw_writeObject (op_object w) (op_uri w @ OSG_EXT) st3);
          st5 = (if op_meta w \<noteq> [] \<and> writeOK
                 then writeMeta (op_uri w @ ''.meta'') (op_meta w) st4 else st4);
          st6 = (if \<not> writeOK then emit (Warn ''FAILED to write'') st5 else st5);
          st7 = emit (OverlayErase (op_uri w)) (st6\<lparr>writeCache := (writeCache st6)(op_uri w := None)\<rparr>)
      in gate_release (op_uri w) st7)"

text \<open>
  Modelled from the spec: \<^verbatim>\<open>ThreadPool::run\<close> of osgEarth's Threading header, which
  is not among the sources. The spec's pool enqueues the task and returns at
  once.
\<close>

definition threadPool_run :: "WriteOperation \<Rightarrow> state \<Rightarrow> state" where
  "threadPool_run w st =
     emit (PoolRun (op_uri w))
       (st\<lparr>threadPool := (case threadPool st of None \<Rightarrow> None | Some q \<Rightarrow> Some (q @ [w]))\<rparr>)"

text \<open>A worker of the pool takes the oldest queued operation and runs it.\<close>

definition worker_step :: "state \<Rightarrow> state" where
  "worker_step st =
     (case threadPool st of
        None \<Rightarrow> st
      | Some [] \<Rightarrow> st
      | Some (w # q) \<Rightarrow> WriteOperation_call w (st\<lparr>threadPool := Some q\<rparr>))"

text \<open>\<^verbatim>\<open>FileSystemCacheBin::write\<close> (the name \<open>write\<close> is taken by Isabelle).\<close>

definition write_obj :: "string \<Rightarrow> Object option \<Rightarrow> Config \<Rightarrow> state \<Rightarrow> bool \<times> state" where
  "write_obj key obj m st =
     (let (valid, st1) = binValidForWriting False st in
      if \<not> valid then (False, st1)
      else
        case obj of
          None \<Rightarrow> (False, st1)
        | Some ob \<Rightarrow>
            let fileURI = uri_full st1 key (metaPath st1) in
            if threadPool st1 \<noteq> None \<and> \<not> isNode ob then
              let st2 = emit (OverlayPut fileURI)
                          (st1\<lparr>writeCache := (writeCache st1)(fileURI \<mapsto> \<lparr>meta = m, object = ob\<rparr>)\<rparr>);
                  st3 = threadPool_run \<lparr>op_uri = fileURI, op_object = ob, op_meta = m\<rparr> st2
              in (True, st3)
            else
              (True, WriteOperation_call \<lparr>op_uri = fileURI, op_object = ob, op_meta = m\<rparr> st1))"

subsection \<open>getRecordStatus, remove\<close>

definition getRecordStatus :: "string \<Rightarrow> state \<Rightarrow> RecordStatus \<times> state" where
  "getRecordStatus key st =
     (let (valid, st1) = binValidForReading True st in
      if \<not> valid then (STATUS_NOT_FOUND, st1)
      else
        let fileURI = uri_full st1 key (metaPath st1);
            path = fileURI @ OSG_EXT;
            (found, st2) = fileExists path st1 in
        if \<not> found then (STATUS_NOT_FOUND, st2) else (STATUS_OK, st2))"

definition remove :: "string \<Rightarrow> state \<Rightarrow> bool \<times> state" where
  "remove key st =
     (let (valid, st1) = binValidForReading True st in
      if \<not> valid then (False, st1)
      else
        let fileURI = uri_full st1 key (metaPath st1);
            path = fileURI @ OSG_EXT;
            st2 = gate_acquire fileURI st1;
            (rc, st3) = unlink path st2
        in (rc = 0, gate_release fileURI st3))"

subsection \<open>purgeDirectory, clear\<close>

text \<open>
  \<^verbatim>\<open>osgDB::getDirectoryContents\<close>: the names in a directory, with the entries
  \<open>.\<close> and \<open>..\<close> that \<^verbatim>\<open>readdir\<close> reports; nothing when the directory cannot be
  opened. An entry of \<open>dir\<close> is a path of the disk that is \<open>dir\<close>, a slash and a
  name without a slash.
\<close>

definition dirPrefix :: "path \<Rightarrow> path" where
  "dirPrefix dir = (if last dir = CHR ''/'' then dir else dir @ ''/'')"

definition isEntryOf :: "path \<Rightarrow> path \<Rightarrow> bool" where
  "isEntryOf dir p =
     (prefix (dirPrefix dir) p
      \<and> drop (length (dirPrefix dir)) p \<noteq> []
      \<and> CHR ''/'' \<notin> set (drop (length (dirPrefix dir)) p))"

definition getDirectoryContents :: "path \<Rightarrow> state \<Rightarrow> string list \<times> state" where
  "getDirectoryContents dir st =
     ((if dir \<noteq> [] \<and> map_of (files st) dir = Some Directory
       then ''.'' # ''..'' #
            map (\<lambda>e. drop (length (dirPrefix dir)) (fst e))
              (filter (\<lambda>e. isEntryOf dir (fst e)) (files st))
       else []),
      emit (FsList dir) st)"

text \<open>\<^verbatim>\<open>full.find(getID()) != std::string::npos\<close>.\<close>

definition contains :: "string \<Rightarrow> string \<Rightarrow> bool" where
  "contains full sub = sublist sub full"

text \<open>
  \<^verbatim>\<open>purgeDirectory\<close> calls itself on the directories it finds. The first argument
  bounds the depth of these calls: the result is \<open>None\<close> when the bound is
  reached. \<open>purgeLoop\<close> is the \<^verbatim>\<open>for\<close> loop over the directory's contents, with
  the local \<^verbatim>\<open>allOK\<close>.
\<close>

fun purgeDirectory :: "nat \<Rightarrow> path \<Rightarrow> state \<Rightarrow> (bool \<times> state) option"
  and purgeLoop :: "nat \<Rightarrow> path \<Rightarrow> string list \<Rightarrow> bool \<Rightarrow> state \<Rightarrow> (bool \<times> state) option"
where
  "purgeDirectory 0 dir st = None"
| "purgeDirectory (Suc n) dir st =
     (let (valid, st1) = binValidForReading True st in
      if \<not> valid then Some (False, st1)
      else
        let (dc, st2) = getDirectoryContents dir st1
        in purgeLoop n dir dc True st2)"
| "purgeLoop n dir [] allOK st = Some (allOK, st)"
| "purgeLoop n dir (i # rest) allOK st =
     (let full = concatPaths dir i in
      if contains full (binID st) then
        let (type, st1) = fileType full st in
        if type = DIRECTORY \<and> i \<noteq> ''.'' \<and> i \<noteq> ''..'' then
          (case purgeDirectory n full st1 of
             None \<Rightarrow> None
           | Some (sub, st2) \<Rightarrow>
               let (rc, st3) = unlink full st2
               in purgeLoop n dir rest (if rc \<noteq> 0 then False else allOK) st3)
        else if type = REGULAR_FILE then
          (if full \<noteq> metaPath st1 then
             let (rc, st3) = unlink full st1
             in purgeLoop n dir rest (if rc \<noteq> 0 then False else allOK) st3
           else purgeLoop n dir rest allOK st1)
        else purgeLoop n dir rest allOK st1
      else purgeLoop n dir rest allOK st)"

definition clear :: "nat \<Rightarrow> state \<Rightarrow> (bool \<times> state) option" where
  "clear n st =
     (let (valid, st1) = binValidForReading True st in
      if \<not> valid then Some (False, st1)
      else
        let binDir = getFilePath (metaPath st1)
        in purgeDirectory n binDir st1)"

subsection \<open>Notions used to state what purgeDirectory does\<close>

text \<open>
  The body of the loop of \<^verbatim>\<open>purgeDirectory\<close> for one entry of the directory: the
  value of the local \<^verbatim>\<open>ok\<close> at the end of the iteration, and the new state.
  \<open>purgeLoop\<close> is this body, entry after entry (lemma \<open>purgeLoop_Cons\<close>).
\<close>

definition purgeEntry :: "nat \<Rightarrow> path \<Rightarrow> string \<Rightarrow> state \<Rightarrow> (int \<times> state) option" where
  "purgeEntry n dir i st =
     (let full = concatPaths dir i in
      if contains full (binID st) then
        let (type, st1) = fileType full st in
        if type = DIRECTORY \<and> i \<noteq> ''.'' \<and> i \<noteq> ''..'' then
          (case purgeDirectory n full st1 of
             None \<Rightarrow> None
           | Some (sub, st2) \<Rightarrow> Some (unlink full st2))
        else if type = REGULAR_FILE then
          (if full \<noteq> metaPath st1 then Some (unlink full st1) else Some (0, st1))
        else Some (0, st1)
      else Some (0, st))"

text \<open>What a call added to the trace.\<close>

definition new_events :: "state \<Rightarrow> state \<Rightarrow> event list" where
  "new_events st st' = drop (length (trace st)) (trace st')"

text \<open>
  \<open>same_bin st st'\<close>: the two states agree on everything but the validity flags,
  the disk and the trace.
\<close>

definition same_bin :: "state \<Rightarrow> state \<Rightarrow> bool" where
  "same_bin st st' =
     (binID st' = binID st \<and> metaPath st' = metaPath st \<and> binPath st' = binPath st
      \<and> threadPool st' = threadPool st \<and> writeCache st' = writeCache st
      \<and> rw st' = rw st \<and> uri_full st' = uri_full st \<and> clock st' = clock st
      \<and> write_fails st' = write_fails st \<and> unlink_fails st' = unlink_fails st
      \<and> mkdir_fails st' = mkdir_fails st)"

text \<open>
  \<open>purged dir st st'\<close>: the state \<open>st'\<close> differs from \<open>st\<close> in the two validity
  flags (which stay set once the bin is valid), in a longer trace, and in regular
  files that are gone from the disk; each of these files was below \<open>dir\<close>, had
  the identifier of the bin in its path, and was not the metadata file of the bin.
\<close>

definition purged :: "path \<Rightarrow> state \<Rightarrow> state \<Rightarrow> bool" where
  "purged dir st st' =
     (same_bin st st'
      \<and> (rw st \<and> binPathExists st \<and> ok st \<longrightarrow> binPathExists st' \<and> ok st')
      \<and> trace st' = trace st @ new_events st st'
      \<and> set (files st') \<subseteq> set (files st)
      \<and> (\<forall>q. map_of (files st') q \<noteq> map_of (files st) q \<longrightarrow>
            (\<exists>c t. map_of (files st) q = Some (RegularFile c t))
            \<and> map_of (files st') q = None
            \<and> contains q (binID st)
            \<and> q \<noteq> metaPath st
            \<and> prefix (concatPaths dir []) q))"

text \<open>
  \<open>unlinked st st'\<close>: what the unlink calls between \<open>st\<close> and \<open>st'\<close> did. A call
  that returned 0 was on a regular file and was not refused by the system; after
  a call that the system did not refuse, the path holds no regular file at the
  end; and no path that the system refuses to unlink has changed.
\<close>

definition unlinked :: "state \<Rightarrow> state \<Rightarrow> bool" where
  "unlinked st st' =
     ((\<forall>p r. FsUnlink p r \<in> set (new_events st st') \<longrightarrow>
          (r = 0 \<longrightarrow> \<not> unlink_fails st p
                       \<and> (\<exists>c t. map_of (files st) p = Some (RegularFile c t)))
          \<and> (\<not> unlink_fails st p \<longrightarrow>
               map_of (files st') p = None \<or> map_of (files st') p = Some Directory))
      \<and> (\<forall>q. map_of (files st') q \<noteq> map_of (files st) q \<longrightarrow> \<not> unlink_fails st q))"

text \<open>
  A simple name is not empty and has no delimiter; a plain name is a simple name
  other than \<open>.\<close> and \<open>..\<close>.
  \<open>descend dir names\<close> is the path reached from \<open>dir\<close> through \<open>names\<close>, and
  \<open>tracked fs dir names\<close> says that on the disk \<open>fs\<close> this path is a file or a
  directory reached through directories.
\<close>

definition simple :: "string \<Rightarrow> bool" where
  "simple i = (i \<noteq> [] \<and> \<not> list_ex isDelimiter i)"

definition plain :: "string \<Rightarrow> bool" where
  "plain i = (simple i \<and> i \<noteq> ''.'' \<and> i \<noteq> ''..'')"

text \<open>
  A directory path that \<^verbatim>\<open>concatPaths\<close> extends by a slash and the name, and a disk
  none of whose paths has a backslash.
\<close>

definition gooddir :: "path \<Rightarrow> bool" where
  "gooddir dir = (dir \<noteq> [] \<and> \<not> isDelimiter (last dir))"

definition clean :: "(path \<times> node) list \<Rightarrow> bool" where
  "clean fs = (\<forall>p\<in>fst ` set fs. CHR 0x5C \<notin> set p)"

fun descend :: "path \<Rightarrow> string list \<Rightarrow> path" where
  "descend dir [] = dir"
| "descend dir (i # rest) = descend (concatPaths dir i) rest"

fun tracked :: "(path \<times> node) list \<Rightarrow> path \<Rightarrow> string list \<Rightarrow> bool" where
  "tracked fs dir [] = False"
| "tracked fs dir [f] = (plain f \<and> map_of fs (concatPaths dir f) \<noteq> None)"
| "tracked fs dir (i # j # rest) =
     (plain i \<and> map_of fs (concatPaths dir i) = Some Directory
      \<and> tracked fs (concatPaths dir i) (j # rest))"

subsection \<open>Example bins\<close>

text \<open>
  The states on which the theorems below are instantiated: a bin \<open>bin\<close> under the
  root \<open>/tmp/c\<close>, with a thread pool or without, on a disk that holds the two
  directories. In them a key is resolved against the directory of the referrer.
\<close>

definition resolve :: "string \<Rightarrow> path \<Rightarrow> path" where
  "resolve key referrer = concatPaths (getFilePath referrer) key"

definition disk0 :: "(path \<times> node) list" where
  "disk0 = [(''/tmp/c'', Directory), (''/tmp/c/bin'', Directory)]"

definition bin_pooled :: state where
  "bin_pooled = FileSystemCacheBin ''bin'' ''/tmp/c'' (Some []) True resolve disk0"

definition bin_inline :: state where
  "bin_inline = FileSystemCacheBin ''bin'' ''/tmp/c'' None True resolve disk0"

text \<open>The same bin on a disk that refuses every write.\<close>

definition bin_disk_full :: state where
  "bin_disk_full = bin_inline\<lparr>write_fails := (\<lambda>p. True)\<rparr>"

definition op_alpha :: WriteOperation where
  "op_alpha = \<lparr>op_uri = ''/tmp/c/bin/alpha'', op_object = Generic ''blob1'', op_meta = [(''k'', ''v'')]\<rparr>"

text \<open>
  A pooled bin whose disk already holds a record for \<open>alpha\<close>, after a second
  \<open>write\<close> of that key that is still queued: the overlay holds the key.
\<close>

definition disk_alpha :: "(path \<times> node) list" where
  "disk_alpha = disk0 @ [(''/tmp/c/bin/alpha.osgb'', RegularFile (Serialized (Generic ''blob0'')) 0)]"

definition bin_pending :: state where
  "bin_pending =
     snd (write_obj ''alpha'' (Some (Generic ''blob1'')) [(''k'', ''v'')]
            (FileSystemCacheBin ''bin'' ''/tmp/c'' (Some []) True resolve disk_alpha))"

text \<open>A bin whose file for \<open>alpha\<close> does not hold a serialized object.\<close>

definition bin_corrupt :: state where
  "bin_corrupt =
     FileSystemCacheBin ''bin'' ''/tmp/c'' None True resolve
       (disk0 @ [(''/tmp/c/bin/alpha.osgb'', RegularFile (Bytes ''junk'') 7)])"

text \<open>A bin without a pool whose disk holds a record for \<open>alpha\<close> and its sidecar.\<close>

definition disk_meta :: "(path \<times> node) list" where
  "disk_meta = disk0 @
     [(''/tmp/c/bin/alpha.osgb'', RegularFile (Serialized (Generic ''blob0'')) 3),
      (''/tmp/c/bin/alpha.meta'', RegularFile (Json [(''k'', ''old'')]) 4)]"

definition bin_with_record :: state where
  "bin_with_record = (FileSystemCacheBin ''bin'' ''/tmp/c'' None True resolve disk_meta)\<lparr>clock := 5\<rparr>"

text \<open>A bin for which no reader-writer was found, and a bin whose directory is missing.\<close>

definition bin_no_codec :: state where
  "bin_no_codec = FileSystemCacheBin ''bin'' ''/tmp/c'' None False resolve disk0"

definition bin_no_directory :: state where
  "bin_no_directory = FileSystemCacheBin ''bin'' ''/tmp/c'' None True resolve [(''/tmp/c'', Directory)]"

text \<open>
  A bin with a subdirectory and a file that the system refuses to unlink, next
  to a sibling bin \<open>bin2\<close> under the same root.
\<close>

definition disk_tree :: "(path \<times> node) list" where
  "disk_tree =
     [(''/tmp/c'', Directory),
      (''/tmp/c/bin'', Directory),
      (''/tmp/c/bin/osgearth_cacheinfo.json'', RegularFile (Bytes ''{}'') 0),
      (''/tmp/c/bin/a.osgb'', RegularFile (Serialized (Generic ''x'')) 1),
      (''/tmp/c/bin/b.osgb'', RegularFile (Serialized (Generic ''y'')) 2),
      (''/tmp/c/bin/sub'', Directory),
      (''/tmp/c/bin/sub/c.osgb'', RegularFile (Serialized (Generic ''z'')) 3),
      (''/tmp/c/bin2'', Directory),
      (''/tmp/c/bin2/a.osgb'', RegularFile (Serialized (Generic ''x'')) 1)]"

definition bin_tree :: state where
  "bin_tree =
     (FileSystemCacheBin ''bin'' ''/tmp/c'' None True resolve disk_tree)
       \<lparr>unlink_fails := (\<lambda>p. p = ''/tmp/c/bin/a.osgb'')\<rparr>"

section \<open>Lemmas about the embedding\<close>

subsection \<open>What the environment calls change\<close>

lemma emit_fields [simp]:
  "binID (emit e st) = binID st" "ok (emit e st) = ok st" "binPathExists (emit e st) = binPathExists st"
  "metaPath (emit e st) = metaPath st" "binPath (emit e st) = binPath st"
  "threadPool (emit e st) = threadPool st" "writeCache (emit e st) = writeCache st"
  "rw (emit e st) = rw st" "uri_full (emit e st) = uri_full st" "files (emit e st) = files st"
  "clock (emit e st) = clock st" "write_fails (emit e st) = write_fails st"
  "unlink_fails (emit e st) = unlink_fails st" "mkdir_fails (emit e st) = mkdir_fails st"
  "trace (emit e st) = trace st @ [e]"
  by (simp_all add: emit_def)

lemma makeDirectoryForFile_fields [simp]:
  "binID (makeDirectoryForFile p st) = binID st" "ok (makeDirectoryForFile p st) = ok st"
  "binPathExists (makeDirectoryForFile p st) = binPathExists st"
  "metaPath (makeDirectoryForFile p st) = metaPath st" "binPath (makeDirectoryForFile p st) = binPath st"
  "threadPool (makeDirectoryForFile p st) = threadPool st" "writeCache (makeDirectoryForFile p st) = writeCache st"
  "rw (makeDirectoryForFile p st) = rw st" "uri_full (makeDirectoryForFile p st) = uri_full st"
  "clock (makeDirectoryForFile p st) = clock st" "write_fails (makeDirectoryForFile p st) = write_fails st"
  "unlink_fails (makeDirectoryForFile p st) = unlink_fails st" "mkdir_fails (makeDirectoryForFile p st) = mkdir_fails st"
  "trace (makeDirectoryForFile p st) = trace st @ [FsMkdir (getFilePath p)]"
  by (simp_all add: makeDirectoryForFile_def Let_def)

lemma rw_write_fields [simp]:
  "binID (snd (rw_write obj p st)) = binID st" "ok (snd (rw_write obj p st)) = ok st"
  "binPathExists (snd (rw_write obj p st)) = binPathExists st"
  "metaPath (snd (rw_write obj p st)) = metaPath st" "binPath (snd (rw_write obj p st)) = binPath st"
  "threadPool (snd (rw_write obj p st)) = threadPool st" "writeCache (snd (rw_write obj p st)) = writeCache st"
  "rw (snd (rw_write obj p st)) = rw st" "uri_full (snd (rw_write obj p st)) = uri_full st"
  "write_fails (snd (rw_write obj p st)) = write_fails st"
  "unlink_fails (snd (rw_write obj p st)) = unlink_fails st" "mkdir_fails (snd (rw_write obj p st)) = mkdir_fails st"
  "trace (snd (rw_write obj p st)) = trace st @ [RwWrite p (fst (rw_write obj p st))]"
  by (simp_all add: rw_write_def)

lemma rw_write_result:
  "fst (rw_write obj p st) = (\<not> write_fails st p \<and> map_of (files st) p \<noteq> Some Directory)"
  by (simp add: rw_write_def)

lemma rw_write_clock:
  "clock (snd (rw_write obj p st)) = (if fst (rw_write obj p st) then Suc (clock st) else clock st)"
  by (simp add: rw_write_def)

lemma rw_write_files:
  "map_of (files (snd (rw_write obj p st))) q =
     (if q = p \<and> fst (rw_write obj p st) then Some (RegularFile (Serialized obj) (clock st))
      else map_of (files st) q)"
  by (simp add: rw_write_def update_conv')

lemma writeMeta_fields [simp]:
  "binID (writeMeta p m st) = binID st" "ok (writeMeta p m st) = ok st"
  "binPathExists (writeMeta p m st) = binPathExists st"
  "metaPath (writeMeta p m st) = metaPath st" "binPath (writeMeta p m st) = binPath st"
  "threadPool (writeMeta p m st) = threadPool st" "writeCache (writeMeta p m st) = writeCache st"
  "rw (writeMeta p m st) = rw st" "uri_full (writeMeta p m st) = uri_full st"
  "write_fails (writeMeta p m st) = write_fails st"
  "unlink_fails (writeMeta p m st) = unlink_fails st" "mkdir_fails (writeMeta p m st) = mkdir_fails st"
  "trace (writeMeta p m st) = trace st @ [MetaWrite p]"
  by (simp_all add: writeMeta_def)

lemma writeMeta_files:
  "map_of (files (writeMeta p m st)) q =
     (if q = p \<and> \<not> write_fails st p \<and> map_of (files st) p \<noteq> Some Directory
      then Some (RegularFile (Json m) (clock st))
      else map_of (files st) q)"
  by (simp add: writeMeta_def update_conv')

lemma unlink_fields [simp]:
  "binID (snd (unlink p st)) = binID st" "ok (snd (unlink p st)) = ok st"
  "binPathExists (snd (unlink p st)) = binPathExists st"
  "metaPath (snd (unlink p st)) = metaPath st" "binPath (snd (unlink p st)) = binPath st"
  "threadPool (snd (unlink p st)) = threadPool st" "writeCache (snd (unlink p st)) = writeCache st"
  "rw (snd (unlink p st)) = rw st" "uri_full (snd (unlink p st)) = uri_full st"
  "clock (snd (unlink p st)) = clock st"
  "write_fails (snd (unlink p st)) = write_fails st"
  "unlink_fails (snd (unlink p st)) = unlink_fails st" "mkdir_fails (snd (unlink p st)) = mkdir_fails st"
  "trace (snd (unlink p st)) = trace st @ [FsUnlink p (fst (unlink p st))]"
  by (simp_all add: unlink_def split: option.splits node.splits)

lemma unlink_result:
  "fst (unlink p st) =
     (if (\<exists>c t. map_of (files st) p = Some (RegularFile c t)) \<and> \<not> unlink_fails st p then 0 else - 1)"
  by (simp add: unlink_def split: option.splits node.splits)

lemma unlink_files:
  "map_of (files (snd (unlink p st))) q =
     (if q = p \<and> fst (unlink p st) = 0 then None else map_of (files st) q)"
  by (simp add: unlink_def delete_conv' split: option.splits node.splits)

lemma rw_write_adapters [simp]:
  "(if isImage obj then rw_writeImage obj p st
    else if isNode obj then rw_writeNode obj p st
    else rw_writeObject obj p st) = rw_write obj p st"
  by (simp add: rw_writeImage_def rw_writeNode_def rw_writeObject_def)

subsection \<open>Creating directories leaves longer paths alone\<close>

lemma getFilePath_length: "length (getFilePath p) \<le> length p"
  by (induction p) auto

lemma dir_chain_length: "x \<in> set (dir_chain d) \<Longrightarrow> length x \<le> length d"
  by (auto simp: dir_chain_def)

lemma fold_mkdir1_other:
  "q \<notin> set ds \<Longrightarrow> map_of (fold (mkdir1 r) ds fs) q = map_of fs q"
  by (induction ds arbitrary: fs) (auto simp: mkdir1_def update_conv')

lemma fold_mkdir1_keeps:
  "map_of fs q = Some v \<Longrightarrow> map_of (fold (mkdir1 r) ds fs) q = Some v"
proof (induction ds arbitrary: fs)
  case Nil
  then show ?case by simp
next
  case (Cons d ds)
  have "map_of (mkdir1 r d fs) q = Some v"
    using Cons.prems by (auto simp: mkdir1_def update_conv')
  then show ?case
    using Cons.IH by simp
qed

lemma makeDirectoryForFile_other:
  assumes "length (getFilePath p) < length q"
  shows "map_of (files (makeDirectoryForFile p st)) q = map_of (files st) q"
proof -
  have "q \<notin> set (dir_chain (getFilePath p))"
    using assms dir_chain_length [of q "getFilePath p"] by auto
  then show ?thesis
    by (simp add: makeDirectoryForFile_def Let_def fold_mkdir1_other)
qed

lemma makeDirectoryForFile_longer:
  "map_of (files (makeDirectoryForFile p st)) (p @ c # cs) = map_of (files st) (p @ c # cs)"
  using getFilePath_length [of p] by (intro makeDirectoryForFile_other) simp

lemma makeDirectoryForFile_keeps:
  "map_of (files st) q = Some v \<Longrightarrow> map_of (files (makeDirectoryForFile p st)) q = Some v"
  by (simp add: makeDirectoryForFile_def Let_def fold_mkdir1_keeps)

subsection \<open>The validity checks change the two flags and the trace only\<close>

lemma binValidForReading_fields [simp]:
  "binID (snd (binValidForReading s st)) = binID st"
  "metaPath (snd (binValidForReading s st)) = metaPath st" "binPath (snd (binValidForReading s st)) = binPath st"
  "threadPool (snd (binValidForReading s st)) = threadPool st" "writeCache (snd (binValidForReading s st)) = writeCache st"
  "rw (snd (binValidForReading s st)) = rw st" "uri_full (snd (binValidForReading s st)) = uri_full st"
  "files (snd (binValidForReading s st)) = files st"
  "clock (snd (binValidForReading s st)) = clock st" "write_fails (snd (binValidForReading s st)) = write_fails st"
  "unlink_fails (snd (binValidForReading s st)) = unlink_fails st" "mkdir_fails (snd (binValidForReading s st)) = mkdir_fails st"
  by (simp_all add: binValidForReading_def fileExists_def Let_def)

lemma binValidForWriting_fields [simp]:
  "binID (snd (binValidForWriting s st)) = binID st"
  "metaPath (snd (binValidForWriting s st)) = metaPath st" "binPath (snd (binValidForWriting s st)) = binPath st"
  "threadPool (snd (binValidForWriting s st)) = threadPool st" "writeCache (snd (binValidForWriting s st)) = writeCache st"
  "rw (snd (binValidForWriting s st)) = rw st" "uri_full (snd (binValidForWriting s st)) = uri_full st"
  "clock (snd (binValidForWriting s st)) = clock st" "write_fails (snd (binValidForWriting s st)) = write_fails st"
  "unlink_fails (snd (binValidForWriting s st)) = unlink_fails st" "mkdir_fails (snd (binValidForWriting s st)) = mkdir_fails st"
  by (simp_all add: binValidForWriting_def fileExists_def Let_def)

lemma binValidForReading_result:
  "fst (binValidForReading s st) = ok (snd (binValidForReading s st))"
  by (simp add: binValidForReading_def fileExists_def Let_def)

lemma binValidForReading_true:
  "fst (binValidForReading s st) \<Longrightarrow>
     rw st \<and> binPathExists (snd (binValidForReading s st)) \<and> ok (snd (binValidForReading s st))"
  by (simp add: binValidForReading_def fileExists_def Let_def split: if_splits)

lemma binValidForReading_cached:
  "rw st \<Longrightarrow> binPathExists st \<Longrightarrow> binValidForReading s st = (ok st, st)"
  by (simp add: binValidForReading_def)

lemma binValidForWriting_cached:
  "rw st \<Longrightarrow> binPathExists st \<Longrightarrow> binValidForWriting s st = (ok st, st)"
  by (simp add: binValidForWriting_def)

subsection \<open>The write operation\<close>

lemma WriteOperation_call_fields [simp]:
  "binID (WriteOperation_call w st) = binID st" "ok (WriteOperation_call w st) = ok st"
  "binPathExists (WriteOperation_call w st) = binPathExists st"
  "metaPath (WriteOperation_call w st) = metaPath st" "binPath (WriteOperation_call w st) = binPath st"
  "threadPool (WriteOperation_call w st) = threadPool st"
  "rw (WriteOperation_call w st) = rw st" "uri_full (WriteOperation_call w st) = uri_full st"
  "write_fails (WriteOperation_call w st) = write_fails st"
  "unlink_fails (WriteOperation_call w st) = unlink_fails st"
  "mkdir_fails (WriteOperation_call w st) = mkdir_fails st"
  "writeCache (WriteOperation_call w st) = (writeCache st)(op_uri w := None)"
  by (simp_all add: WriteOperation_call_def Let_def case_prod_beta gate_acquire_def gate_release_def
        fileExists_def)

lemma WriteOperation_call_writeOK:
  "fst (rw_write obj (u @ OSG_EXT)
         (if found then st else makeDirectoryForFile u st)) =
     (\<not> write_fails st (u @ OSG_EXT) \<and> map_of (files st) (u @ OSG_EXT) \<noteq> Some Directory)"
  by (simp add: rw_write_result OSG_EXT_def makeDirectoryForFile_longer)

lemma WriteOperation_call_trace:
  "trace (WriteOperation_call w st) =
     trace st @ [GateAcquire (op_uri w), FsExists (getFilePath (op_uri w))]
       @ (if map_of (files st) (getFilePath (op_uri w)) = None
          then [FsMkdir (getFilePath (op_uri w))] else [])
       @ [RwWrite (op_uri w @ OSG_EXT)
            (\<not> write_fails st (op_uri w @ OSG_EXT)
             \<and> map_of (files st) (op_uri w @ OSG_EXT) \<noteq> Some Directory)]
       @ (if op_meta w \<noteq> []
             \<and> \<not> write_fails st (op_uri w @ OSG_EXT)
             \<and> map_of (files st) (op_uri w @ OSG_EXT) \<noteq> Some Directory
          then [MetaWrite (op_uri w @ ''.meta'')] else [])
       @ (if \<not> write_fails st (op_uri w @ OSG_EXT)
             \<and> map_of (files st) (op_uri w @ OSG_EXT) \<noteq> Some Directory
          then [] else [Warn ''FAILED to write''])
       @ [OverlayErase (op_uri w), GateRelease (op_uri w)]"
  by (simp add: WriteOperation_call_def Let_def case_prod_beta gate_acquire_def gate_release_def
        fileExists_def rw_write_result OSG_EXT_def makeDirectoryForFile_longer)

lemma WriteOperation_call_files:
  "map_of (files (WriteOperation_call w st)) (op_uri w @ OSG_EXT) =
     (if \<not> write_fails st (op_uri w @ OSG_EXT)
         \<and> map_of (files st) (op_uri w @ OSG_EXT) \<noteq> Some Directory
      then Some (RegularFile (Serialized (op_object w)) (clock st))
      else map_of (files st) (op_uri w @ OSG_EXT))"
  "map_of (files (WriteOperation_call w st)) (op_uri w @ ''.meta'') =
     (if op_meta w \<noteq> []
         \<and> \<not> write_fails st (op_uri w @ OSG_EXT)
         \<and> map_of (files st) (op_uri w @ OSG_EXT) \<noteq> Some Directory
         \<and> \<not> write_fails st (op_uri w @ ''.meta'')
         \<and> map_of (files st) (op_uri w @ ''.meta'') \<noteq> Some Directory
      then Some (RegularFile (Json (op_meta w)) (Suc (clock st)))
      else map_of (files st) (op_uri w @ ''.meta''))"
  by (simp_all add: WriteOperation_call_def Let_def case_prod_beta gate_acquire_def gate_release_def
        fileExists_def rw_write_result rw_write_files rw_write_clock writeMeta_files OSG_EXT_def
        makeDirectoryForFile_longer)

subsection \<open>Reads\<close>

lemma binValidForReading_emit:
  "fst (binValidForReading s (emit e st)) = fst (binValidForReading s st)"
  by (simp add: binValidForReading_def fileExists_def Let_def emit_def)

lemma binValidForReading_again:
  "fst (binValidForReading s' (snd (binValidForReading s st))) = fst (binValidForReading s st)"
  by (simp add: binValidForReading_def fileExists_def Let_def)

lemma readObject_result:
  "fst (readObject key st) =
     (if \<not> fst (binValidForReading True st) then RESULT_NOT_FOUND
      else if map_of (files st) (uri_full st key (metaPath st) @ OSG_EXT) = None then RESULT_NOT_FOUND
      else
        case (if threadPool st \<noteq> None then writeCache st (uri_full st key (metaPath st)) else None) of
          Some i \<Rightarrow> Found (Some (object i)) (meta i)
                      (fst (getLastModifiedTime (uri_full st key (metaPath st) @ OSG_EXT) st))
        | None \<Rightarrow>
            (case fst (rw_readObject (uri_full st key (metaPath st) @ OSG_EXT) st) of
               None \<Rightarrow> RESULT_NOT_FOUND
             | Some obj \<Rightarrow>
                 Found (Some obj)
                   (if map_of (files st) (uri_full st key (metaPath st) @ ''.meta'') \<noteq> None
                    then fst (readMeta (uri_full st key (metaPath st) @ ''.meta'') st) else [])
                   (fst (getLastModifiedTime (uri_full st key (metaPath st) @ OSG_EXT) st))))"
  by (simp add: readObject_def Let_def case_prod_beta fileExists_def gate_acquire_def gate_release_def
        getLastModifiedTime_def rw_readObject_def readMeta_def ReadResult_default_def
      split: option.splits)

lemma readObject_trace:
  "trace (snd (readObject key st)) =
     trace (snd (binValidForReading True st)) @
     (if \<not> fst (binValidForReading True st) then []
      else if map_of (files st) (uri_full st key (metaPath st) @ OSG_EXT) = None
      then [FsExists (uri_full st key (metaPath st) @ OSG_EXT)]
      else
        [FsExists (uri_full st key (metaPath st) @ OSG_EXT),
         FsMTime (uri_full st key (metaPath st) @ OSG_EXT),
         GateAcquire (uri_full st key (metaPath st))] @
        (if threadPool st \<noteq> None then [OverlayFind (uri_full st key (metaPath st))] else []) @
        (if threadPool st \<noteq> None \<and> writeCache st (uri_full st key (metaPath st)) \<noteq> None then []
         else
           [RwRead (uri_full st key (metaPath st) @ OSG_EXT)] @
           (if fst (rw_readObject (uri_full st key (metaPath st) @ OSG_EXT) st) = None then []
            else
              [FsExists (uri_full st key (metaPath st) @ ''.meta'')] @
              (if map_of (files st) (uri_full st key (metaPath st) @ ''.meta'') = None then []
               else [MetaRead (uri_full st key (metaPath st) @ ''.meta'')]))) @
        [GateRelease (uri_full st key (metaPath st))])"
  by (auto simp: readObject_def Let_def case_prod_beta fileExists_def gate_acquire_def gate_release_def
        getLastModifiedTime_def rw_readObject_def readMeta_def ReadResult_default_def
      split: option.splits)


lemma readImage_result:
  "fst (readImage key st) =
     (if \<not> fst (binValidForReading True st) then RESULT_NOT_FOUND
      else if map_of (files st) (uri_full st key (metaPath st) @ OSG_EXT) = None then RESULT_NOT_FOUND
      else
        case (if threadPool st \<noteq> None then writeCache st (uri_full st key (metaPath st)) else None) of
          Some i \<Rightarrow> Found (if isImage (object i) then Some (object i) else None) (meta i)
                      (fst (getLastModifiedTime (uri_full st key (metaPath st) @ OSG_EXT) st))
        | None \<Rightarrow>
            (case fst (rw_readImage (uri_full st key (metaPath st) @ OSG_EXT) st) of
               None \<Rightarrow> RESULT_NOT_FOUND
             | Some obj \<Rightarrow>
                 Found (Some obj)
                   (if map_of (files st) (uri_full st key (metaPath st) @ ''.meta'') \<noteq> None
                    then fst (readMeta (uri_full st key (metaPath st) @ ''.meta'') st) else [])
                   (fst (getLastModifiedTime (uri_full st key (metaPath st) @ OSG_EXT) st))))"
  by (simp add: readImage_def Let_def case_prod_beta fileExists_def gate_acquire_def gate_release_def
        getLastModifiedTime_def rw_readImage_def readMeta_def ReadResult_default_def
      split: option.splits)

lemma readImage_trace:
  "trace (snd (readImage key st)) =
     trace (snd (binValidForReading True st)) @
     (if \<not> fst (binValidForReading True st) then []
      else if map_of (files st) (uri_full st key (metaPath st) @ OSG_EXT) = None
      then [FsExists (uri_full st key (metaPath st) @ OSG_EXT)]
      else
        [FsExists (uri_full st key (metaPath st) @ OSG_EXT),
         FsMTime (uri_full st key (metaPath st) @ OSG_EXT),
         GateAcquire (uri_full st key (metaPath st))] @
        (if threadPool st \<noteq> None then [OverlayFind (uri_full st key (metaPath st))] else []) @
        (if threadPool st \<noteq> None \<and> writeCache st (uri_full st key (metaPath st)) \<noteq> None then []
         else
           [RwRead (uri_full st key (metaPath st) @ OSG_EXT)] @
           (if fst (rw_readImage (uri_full st key (metaPath st) @ OSG_EXT) st) = None then []
            else
              [FsExists (uri_full st key (metaPath st) @ ''.meta'')] @
              (if map_of (files st) (uri_full st key (metaPath st) @ ''.meta'') = None then []
               else [MetaRead (uri_full st key (metaPath st) @ ''.meta'')]))) @
        [GateRelease (uri_full st key (metaPath st))])"
  by (auto simp: readImage_def Let_def case_prod_beta fileExists_def gate_acquire_def gate_release_def
        getLastModifiedTime_def rw_readImage_def readMeta_def ReadResult_default_def
      split: option.splits)

subsection \<open>getRecordStatus and remove\<close>

lemma getRecordStatus_fields [simp]:
  "binID (snd (getRecordStatus key st)) = binID st"
  "metaPath (snd (getRecordStatus key st)) = metaPath st" "binPath (snd (getRecordStatus key st)) = binPath st"
  "threadPool (snd (getRecordStatus key st)) = threadPool st" "writeCache (snd (getRecordStatus key st)) = writeCache st"
  "rw (snd (getRecordStatus key st)) = rw st" "uri_full (snd (getRecordStatus key st)) = uri_full st"
  "files (snd (getRecordStatus key st)) = files st"
  "clock (snd (getRecordStatus key st)) = clock st" "write_fails (snd (getRecordStatus key st)) = write_fails st"
  "unlink_fails (snd (getRecordStatus key st)) = unlink_fails st" "mkdir_fails (snd (getRecordStatus key st)) = mkdir_fails st"
  by (simp_all add: getRecordStatus_def Let_def case_prod_beta fileExists_def)

lemma getRecordStatus_result:
  "fst (getRecordStatus key st) =
     (if fst (binValidForReading True st)
         \<and> map_of (files st) (uri_full st key (metaPath st) @ OSG_EXT) \<noteq> None
      then STATUS_OK else STATUS_NOT_FOUND)"
  by (simp add: getRecordStatus_def Let_def case_prod_beta fileExists_def)

lemma getRecordStatus_trace:
  "trace (snd (getRecordStatus key st)) =
     trace (snd (binValidForReading True st)) @
     (if fst (binValidForReading True st)
      then [FsExists (uri_full st key (metaPath st) @ OSG_EXT)] else [])"
  by (simp add: getRecordStatus_def Let_def case_prod_beta fileExists_def)

lemma getRecordStatus_then_valid:
  "fst (binValidForReading s (snd (getRecordStatus key st))) = fst (binValidForReading True st)"
  by (simp add: getRecordStatus_def Let_def case_prod_beta fileExists_def binValidForReading_emit
        binValidForReading_again)

lemma rw_readObject_result:
  "fst (rw_readObject p st) \<noteq> None \<longleftrightarrow> (\<exists>obj t. map_of (files st) p = Some (RegularFile (Serialized obj) t))"
  by (auto simp: rw_readObject_def split: option.splits node.splits content.splits)

lemma emit_untraced [simp]: "(emit e st)\<lparr>trace := []\<rparr> = st\<lparr>trace := []\<rparr>"
  by (simp add: emit_def)

lemma binValidForReading_untraced_again:
  "(snd (binValidForReading s' (snd (binValidForReading s st))))\<lparr>trace := []\<rparr>
     = (snd (binValidForReading s st))\<lparr>trace := []\<rparr>"
  by (simp add: binValidForReading_def fileExists_def Let_def emit_def)

lemma remove_fields [simp]:
  "binID (snd (remove key st)) = binID st"
  "metaPath (snd (remove key st)) = metaPath st" "binPath (snd (remove key st)) = binPath st"
  "threadPool (snd (remove key st)) = threadPool st" "writeCache (snd (remove key st)) = writeCache st"
  "rw (snd (remove key st)) = rw st" "uri_full (snd (remove key st)) = uri_full st"
  "clock (snd (remove key st)) = clock st" "write_fails (snd (remove key st)) = write_fails st"
  "unlink_fails (snd (remove key st)) = unlink_fails st" "mkdir_fails (snd (remove key st)) = mkdir_fails st"
  "ok (snd (remove key st)) = ok (snd (binValidForReading True st))"
  "binPathExists (snd (remove key st)) = binPathExists (snd (binValidForReading True st))"
  by (simp_all add: remove_def Let_def case_prod_beta gate_acquire_def gate_release_def)

lemma remove_result:
  "fst (remove key st) \<longleftrightarrow>
     fst (binValidForReading True st)
     \<and> (\<exists>c t. map_of (files st) (uri_full st key (metaPath st) @ OSG_EXT) = Some (RegularFile c t))
     \<and> \<not> unlink_fails st (uri_full st key (metaPath st) @ OSG_EXT)"
  by (simp add: remove_def Let_def case_prod_beta gate_acquire_def gate_release_def unlink_result)

lemma remove_files:
  "map_of (files (snd (remove key st))) q =
     (if q = uri_full st key (metaPath st) @ OSG_EXT \<and> fst (remove key st) then None
      else map_of (files st) q)"
  by (simp add: remove_def Let_def case_prod_beta gate_acquire_def gate_release_def unlink_files
        unlink_result)

lemma remove_trace:
  "trace (snd (remove key st)) =
     trace (snd (binValidForReading True st)) @
     (if fst (binValidForReading True st)
      then [GateAcquire (uri_full st key (metaPath st)),
            FsUnlink (uri_full st key (metaPath st) @ OSG_EXT) (if fst (remove key st) then 0 else - 1),
            GateRelease (uri_full st key (metaPath st))]
      else [])"
  by (simp add: remove_def Let_def case_prod_beta gate_acquire_def gate_release_def unlink_result)

lemma unlink_files_list:
  "files (snd (unlink p st)) = (if fst (unlink p st) = 0 then AList.delete p (files st) else files st)"
  by (simp add: unlink_def split: option.splits node.splits)

lemma unlink_untraced:
  "(snd (unlink p st))\<lparr>trace := []\<rparr> =
     (if fst (unlink p st) = 0 then st\<lparr>files := AList.delete p (files st), trace := []\<rparr>
      else st\<lparr>trace := []\<rparr>)"
  by (simp add: unlink_def emit_def split: option.splits node.splits)

lemma remove_files_list:
  "files (snd (remove key st)) =
     (if fst (remove key st) then AList.delete (uri_full st key (metaPath st) @ OSG_EXT) (files st)
      else files st)"
  by (simp add: remove_def Let_def case_prod_beta gate_acquire_def gate_release_def
        unlink_files_list)

lemma remove_then_valid:
  "fst (binValidForReading s (snd (remove key st))) = fst (binValidForReading True st)"
proof (cases "fst (binValidForReading True st)")
  case True
  then have "rw (snd (remove key st)) \<and> binPathExists (snd (remove key st)) \<and> ok (snd (remove key st))"
    using binValidForReading_true [of True st] by simp
  then show ?thesis
    using True by (simp add: binValidForReading_cached)
next
  case False
  then have "snd (remove key st) = snd (binValidForReading True st)"
    by (simp add: remove_def Let_def case_prod_beta)
  then show ?thesis
    by (simp add: binValidForReading_again)
qed

lemma remove_twice_result: "\<not> fst (remove key (snd (remove key st)))"
  unfolding remove_result [of key "snd (remove key st)"]
  by (auto simp: remove_files remove_then_valid remove_result [of key st])

lemma remove_untraced:
  "(snd (remove key st))\<lparr>trace := []\<rparr> =
     (if fst (remove key st)
      then (snd (binValidForReading True st))
             \<lparr>files := AList.delete (uri_full st key (metaPath st) @ OSG_EXT) (files st), trace := []\<rparr>
      else (snd (binValidForReading True st))\<lparr>trace := []\<rparr>)"
  by (simp add: remove_def Let_def case_prod_beta gate_acquire_def gate_release_def
        unlink_untraced)

lemma remove_twice_state:
  "(snd (remove key (snd (remove key st))))\<lparr>trace := []\<rparr> = (snd (remove key st))\<lparr>trace := []\<rparr>"
proof (cases "fst (binValidForReading True st)")
  case True
  then have "rw (snd (remove key st)) \<and> binPathExists (snd (remove key st))"
    using binValidForReading_true [of True st] by simp
  then have "snd (binValidForReading True (snd (remove key st))) = snd (remove key st)"
    by (simp add: binValidForReading_cached)
  then show ?thesis
    using remove_twice_result [of key st]
    by (simp add: remove_untraced [of key "snd (remove key st)"])
next
  case False
  then have r: "snd (remove key st) = snd (binValidForReading True st)"
    by (simp add: remove_def Let_def case_prod_beta)
  show ?thesis
    using remove_twice_result [of key st]
    by (simp add: remove_untraced [of key "snd (remove key st)"])
       (simp add: r binValidForReading_untraced_again)
qed

lemma write_obj_inline:
  assumes "rw st" "binPathExists st" "ok st" "threadPool st = None \<or> isNode ob"
  shows "write_obj key (Some ob) m st =
           (True, WriteOperation_call \<lparr>op_uri = uri_full st key (metaPath st), op_object = ob, op_meta = m\<rparr> st)"
  using assms by (auto simp: write_obj_def binValidForWriting_cached)

lemma readObject_after_inline_write:
  assumes "rw st" "binPathExists st" "ok st" "threadPool st = None \<or> isNode ob"
    and "\<not> write_fails st (uri_full st key (metaPath st) @ OSG_EXT)"
    and "map_of (files st) (uri_full st key (metaPath st) @ OSG_EXT) \<noteq> Some Directory"
    and "map_of (files st) (uri_full st key (metaPath st) @ ''.meta'') = Some (RegularFile (Json m0) t0)"
  shows "fst (readObject key (snd (write_obj key (Some ob) [] st))) = Found (Some ob) m0 (clock st)"
proof -
  let ?w = "\<lparr>op_uri = uri_full st key (metaPath st), op_object = ob, op_meta = []\<rparr>"
  let ?sw = "WriteOperation_call ?w st"
  have sw: "snd (write_obj key (Some ob) [] st) = ?sw"
    using assms(1-4) by (simp add: write_obj_inline)
  have valid: "fst (binValidForReading True ?sw)"
    using assms(1-3) by (simp add: binValidForReading_cached)
  have prim: "map_of (files ?sw) (uri_full st key (metaPath st) @ OSG_EXT)
                = Some (RegularFile (Serialized ob) (clock st))"
    using assms(5,6) WriteOperation_call_files(1) [of ?w st] by simp
  have side: "map_of (files ?sw) (uri_full st key (metaPath st) @ ''.meta'')
                = Some (RegularFile (Json m0) t0)"
    using assms(7) WriteOperation_call_files(2) [of ?w st] by simp
  show ?thesis
    unfolding sw
    using valid prim side
    by (simp add: readObject_result rw_readObject_def readMeta_def getLastModifiedTime_def)
qed

subsection \<open>The validity checks, case by case\<close>

lemma binValidForReading_missing:
  assumes "rw st" "\<not> binPathExists st" "map_of (files st) (binPath st) = None"
  shows "binValidForReading s st =
           (False, (if ok st \<and> \<not> s
                    then emit (Warn ''Failed to locate cache bin'') (emit (FsExists (binPath st)) st)
                    else emit (FsExists (binPath st)) st)\<lparr>ok := False\<rparr>)"
  using assms by (simp add: binValidForReading_def fileExists_def Let_def emit_def)

lemma binValidForReading_found:
  assumes "rw st" "\<not> binPathExists st" "map_of (files st) (binPath st) \<noteq> None"
  shows "binValidForReading s st =
           (True, (emit (FsExists (binPath st)) st)\<lparr>binPathExists := True, ok := True\<rparr>)"
  using assms by (auto simp: binValidForReading_def fileExists_def Let_def)

lemma binValidForWriting_found:
  assumes "rw st" "\<not> binPathExists st"
    and "map_of (files (makeDirectoryForFile (metaPath st) st)) (binPath st) \<noteq> None"
  shows "binValidForWriting s st =
           (True, (emit (FsExists (binPath st)) (makeDirectoryForFile (metaPath st) st))
                    \<lparr>binPathExists := True, ok := True\<rparr>)"
  using assms by (auto simp: binValidForWriting_def fileExists_def Let_def)

lemma repeated_misses:
  assumes "rw st" "\<not> binPathExists st" "map_of (files st) (binPath st) = None" "\<not> ok st"
  shows "((\<lambda>x. snd (binValidForReading s x)) ^^ n) st =
           st\<lparr>trace := trace st @ replicate n (FsExists (binPath st))\<rparr>"
  using assms
proof (induction n arbitrary: st)
  case 0
  then show ?case by simp
next
  case (Suc n)
  let ?st1 = "snd (binValidForReading s st)"
  have st1: "?st1 = st\<lparr>trace := trace st @ [FsExists (binPath st)]\<rparr>"
    using Suc.prems by (simp add: binValidForReading_missing emit_def)
  have ih: "((\<lambda>x. snd (binValidForReading s x)) ^^ n) ?st1 =
          ?st1\<lparr>trace := trace ?st1 @ replicate n (FsExists (binPath ?st1))\<rparr>"
    using Suc.prems by (intro Suc.IH) (simp_all add: st1)
  have "((\<lambda>x. snd (binValidForReading s x)) ^^ Suc n) st =
          ((\<lambda>x. snd (binValidForReading s x)) ^^ n) ?st1"
    by (simp only: funpow_Suc_right o_apply)
  also have "\<dots> = st\<lparr>trace := trace st @ replicate (Suc n) (FsExists (binPath st))\<rparr>"
    unfolding ih by (simp add: st1)
  finally show ?case .
qed

lemma binValidForReading_no_codec:
  "\<not> rw st \<Longrightarrow> binValidForReading s st = (False, st\<lparr>ok := False\<rparr>)"
  by (simp add: binValidForReading_def)

lemma binValidForWriting_no_codec:
  "\<not> rw st \<Longrightarrow> binValidForWriting s st = (False, st\<lparr>ok := False\<rparr>)"
  by (simp add: binValidForWriting_def)

lemma repeated_no_codec:
  assumes "\<not> rw st"
  shows "((\<lambda>x. snd (binValidForReading s x)) ^^ Suc n) st = st\<lparr>ok := False\<rparr>"
proof (induction n)
  case 0
  then show ?case
    using assms by (simp add: binValidForReading_no_codec)
next
  case (Suc n)
  have "((\<lambda>x. snd (binValidForReading s x)) ^^ Suc (Suc n)) st =
          snd (binValidForReading s (((\<lambda>x. snd (binValidForReading s x)) ^^ Suc n) st))"
    by (simp del: funpow.simps add: funpow.simps(2) [of "Suc n"])
  also have "\<dots> = snd (binValidForReading s (st\<lparr>ok := False\<rparr>))"
    unfolding Suc.IH ..
  also have "\<dots> = st\<lparr>ok := False\<rparr>"
    using assms by (simp add: binValidForReading_no_codec)
  finally show ?case .
qed

section \<open>Lemmas about purgeDirectory\<close>

subsection \<open>Paths\<close>

lemma concatPaths_append: "concatPaths dir i = concatPaths dir [] @ i"
  by (simp add: concatPaths_def)

lemma concatPaths_length: "length dir + length i \<le> length (concatPaths dir i)"
  by (cases dir rule: rev_cases) (auto simp: concatPaths_def)

lemma concatPaths_nested_prefix:
  "prefix (concatPaths dir []) (concatPaths (concatPaths dir i) [])"
proof (cases "dir = []")
  case True
  then show ?thesis by (simp add: concatPaths_def)
next
  case False
  then have d: "concatPaths dir [] \<noteq> [] \<and> last (concatPaths dir []) = CHR ''/''"
    by (auto simp: concatPaths_def)
  show ?thesis
  proof (cases "i = []")
    case True
    then show ?thesis
      using d by (simp add: concatPaths_append [of dir i]) (simp add: concatPaths_def)
  next
    case False
    then show ?thesis
      using d by (simp add: concatPaths_append [of dir i])
                 (auto simp: concatPaths_def butlast_append)
  qed
qed

subsection \<open>Traces\<close>

lemma new_events_self [simp]: "new_events st st = []"
  by (simp add: new_events_def)

lemma new_events_emit [simp]: "new_events st (emit e st) = [e]"
  by (simp add: new_events_def)

lemma new_events_trans:
  "trace st1 = trace st @ new_events st st1 \<Longrightarrow> trace st2 = trace st1 @ new_events st1 st2 \<Longrightarrow>
     new_events st st2 = new_events st st1 @ new_events st1 st2
     \<and> trace st2 = trace st @ new_events st st2"
  by (metis append.assoc append_eq_conv_conj new_events_def)

subsection \<open>The relation purged\<close>

lemma same_bin_refl [simp]: "same_bin st st"
  by (simp add: same_bin_def)

lemma same_bin_emit [simp]: "same_bin st (emit e st)"
  by (simp add: same_bin_def)

lemma same_bin_trans: "same_bin st st1 \<Longrightarrow> same_bin st1 st2 \<Longrightarrow> same_bin st st2"
  by (simp add: same_bin_def)

lemma same_bin_valid: "same_bin st (snd (binValidForReading s st))"
  by (simp add: same_bin_def)

lemma same_bin_unlink: "same_bin st (snd (unlink p st))"
  by (simp add: same_bin_def)

lemma purged_refl [simp]: "purged dir st st"
  by (simp add: purged_def)

lemma purged_emit [simp]: "purged dir st (emit e st)"
  by (simp add: purged_def)

lemma purged_same_bin: "purged dir st st' \<Longrightarrow> same_bin st st'"
  by (simp add: purged_def)

lemma purged_flags:
  "purged dir st st' \<Longrightarrow> rw st \<Longrightarrow> binPathExists st \<Longrightarrow> ok st \<Longrightarrow>
     rw st' \<and> binPathExists st' \<and> ok st'"
  by (simp add: purged_def same_bin_def)

lemma purged_trace: "purged dir st st' \<Longrightarrow> trace st' = trace st @ new_events st st'"
  by (simp add: purged_def)

lemma purged_set: "purged dir st st' \<Longrightarrow> set (files st') \<subseteq> set (files st)"
  by (simp add: purged_def)

lemma purged_files:
  "purged dir st st' \<Longrightarrow> map_of (files st') q \<noteq> map_of (files st) q \<Longrightarrow>
     (\<exists>c t. map_of (files st) q = Some (RegularFile c t))
     \<and> map_of (files st') q = None \<and> contains q (binID st) \<and> q \<noteq> metaPath st
     \<and> prefix (concatPaths dir []) q"
  unfolding purged_def by blast

lemma purged_trans:
  assumes "purged dir st st1" "purged dir st1 st2"
  shows "purged dir st st2"
proof -
  have b: "same_bin st st2"
    using assms by (blast intro: same_bin_trans purged_same_bin)
  have t: "trace st2 = trace st @ new_events st st2"
    using new_events_trans [OF purged_trace [OF assms(1)] purged_trace [OF assms(2)]] by simp
  have s: "set (files st2) \<subseteq> set (files st)"
    using purged_set [OF assms(1)] purged_set [OF assms(2)] by blast
  have f: "(\<exists>c t. map_of (files st) q = Some (RegularFile c t))
            \<and> map_of (files st2) q = None \<and> contains q (binID st) \<and> q \<noteq> metaPath st
            \<and> prefix (concatPaths dir []) q"
    if d: "map_of (files st2) q \<noteq> map_of (files st) q" for q
  proof (cases "map_of (files st1) q = map_of (files st) q")
    case True
    have "same_bin st st1"
      using assms(1) by (rule purged_same_bin)
    then have "binID st1 = binID st" "metaPath st1 = metaPath st"
      by (simp_all add: same_bin_def)
    then show ?thesis
      using purged_files [OF assms(2), of q] d True by simp
  next
    case False
    note a = purged_files [OF assms(1) False]
    have "map_of (files st2) q = map_of (files st1) q"
    proof (rule ccontr)
      assume "map_of (files st2) q \<noteq> map_of (files st1) q"
      then have "\<exists>c t. map_of (files st1) q = Some (RegularFile c t)"
        using purged_files [OF assms(2)] by blast
      then show False
        using a by simp
    qed
    then show ?thesis
      using a by simp
  qed
  have g: "binPathExists st2 \<and> ok st2" if "rw st" "binPathExists st" "ok st"
    using purged_flags [OF assms(2)] purged_flags [OF assms(1) that] by blast
  show ?thesis
    unfolding purged_def using b t s f g by blast
qed

lemma purged_nested:
  assumes "purged (concatPaths dir i) st st'"
  shows "purged dir st st'"
proof -
  have "prefix (concatPaths dir []) q" if "prefix (concatPaths (concatPaths dir i) []) q" for q
    using that concatPaths_nested_prefix [of dir i] by (rule prefix_order.trans [rotated])
  then show ?thesis
    using assms unfolding purged_def by blast
qed

lemma purged_valid: "purged dir st (snd (binValidForReading s st))"
  unfolding purged_def
  by (simp add: same_bin_valid)
     (auto simp: binValidForReading_def fileExists_def Let_def emit_def new_events_def)

lemma purged_fileType: "purged dir st (snd (fileType p st))"
  by (simp add: fileType_def)

lemma purged_list: "purged dir st (snd (getDirectoryContents p st))"
  by (simp add: getDirectoryContents_def)

lemma purged_unlink:
  assumes "(\<exists>c t. map_of (files st) p = Some (RegularFile c t)) \<Longrightarrow>
             contains p (binID st) \<and> p \<noteq> metaPath st \<and> prefix (concatPaths dir []) p"
  shows "purged dir st (snd (unlink p st))"
proof -
  have "set (AList.delete p (files st)) \<subseteq> set (files st)"
    by (auto simp: AList.delete_eq)
  then have s: "set (files (snd (unlink p st))) \<subseteq> set (files st)"
    by (simp add: unlink_files_list)
  have f: "(\<exists>c t. map_of (files st) q = Some (RegularFile c t))
            \<and> map_of (files (snd (unlink p st))) q = None \<and> contains q (binID st)
            \<and> q \<noteq> metaPath st \<and> prefix (concatPaths dir []) q"
    if "map_of (files (snd (unlink p st))) q \<noteq> map_of (files st) q" for q
    using that assms by (auto simp: unlink_files unlink_result split: if_splits)
  have t: "trace (snd (unlink p st)) = trace st @ new_events st (snd (unlink p st))"
    by (simp add: new_events_def)
  have g: "binPathExists (snd (unlink p st)) = binPathExists st" "ok (snd (unlink p st)) = ok st"
    by simp_all
  show ?thesis
    unfolding purged_def using same_bin_unlink s f t g by blast
qed

subsection \<open>purgeLoop, entry by entry\<close>

lemma purgeLoop_Cons:
  "purgeLoop n dir (i # rest) allOK st =
     (case purgeEntry n dir i st of
        None \<Rightarrow> None
      | Some (rc, st1) \<Rightarrow> purgeLoop n dir rest (if rc \<noteq> 0 then False else allOK) st1)"
  by (auto simp: purgeEntry_def Let_def case_prod_beta split: option.splits)

lemma purgeDirectory_Suc:
  "purgeDirectory (Suc n) dir st =
     (if \<not> fst (binValidForReading True st) then Some (False, snd (binValidForReading True st))
      else purgeLoop n dir (fst (getDirectoryContents dir (snd (binValidForReading True st)))) True
             (emit (FsList dir) (snd (binValidForReading True st))))"
  by (simp add: Let_def case_prod_beta getDirectoryContents_def)

declare purgeDirectory.simps(2) [simp del] purgeLoop.simps(2) [simp del]

lemma fileType_DIRECTORY:
  "fst (fileType p st) = DIRECTORY \<longleftrightarrow> map_of (files st) p = Some Directory"
  by (simp add: fileType_def split: option.splits node.splits)

lemma fileType_REGULAR_FILE:
  "fst (fileType p st) = REGULAR_FILE \<longleftrightarrow> (\<exists>c t. map_of (files st) p = Some (RegularFile c t))"
  by (simp add: fileType_def split: option.splits node.splits)

lemma fileType_snd [simp]: "snd (fileType p st) = emit (FsType p) st"
  by (simp add: fileType_def)

text \<open>The cases of one iteration.\<close>

lemma purgeEntry_cases:
  assumes "purgeEntry n dir i st = Some (rc, st')"
  obtains
    (skipped) "rc = 0" "st' = st" "\<not> contains (concatPaths dir i) (binID st)"
  | (other) "rc = 0" "st' = emit (FsType (concatPaths dir i)) st"
      "contains (concatPaths dir i) (binID st)"
      "\<not> (map_of (files st) (concatPaths dir i) = Some Directory \<and> i \<noteq> ''.'' \<and> i \<noteq> ''..'')"
      "(\<exists>c t. map_of (files st) (concatPaths dir i) = Some (RegularFile c t))
         \<longrightarrow> concatPaths dir i = metaPath st"
  | (regular) "(rc, st') = unlink (concatPaths dir i) (emit (FsType (concatPaths dir i)) st)"
      "contains (concatPaths dir i) (binID st)"
      "\<exists>c t. map_of (files st) (concatPaths dir i) = Some (RegularFile c t)"
      "concatPaths dir i \<noteq> metaPath st"
  | (directory) sub st2 where
      "purgeDirectory n (concatPaths dir i) (emit (FsType (concatPaths dir i)) st) = Some (sub, st2)"
      "(rc, st') = unlink (concatPaths dir i) st2"
      "contains (concatPaths dir i) (binID st)"
      "map_of (files st) (concatPaths dir i) = Some Directory" "i \<noteq> ''.''" "i \<noteq> ''..''"
proof (cases "contains (concatPaths dir i) (binID st)")
  case False
  then show ?thesis
    using assms skipped by (simp add: purgeEntry_def)
next
  case c: True
  show ?thesis
  proof (cases "map_of (files st) (concatPaths dir i) = Some Directory \<and> i \<noteq> ''.'' \<and> i \<noteq> ''..''")
    case True
    then obtain sub st2 where
      "purgeDirectory n (concatPaths dir i) (emit (FsType (concatPaths dir i)) st) = Some (sub, st2)"
      "(rc, st') = unlink (concatPaths dir i) st2"
      using assms c
      by (auto simp: purgeEntry_def Let_def case_prod_beta fileType_DIRECTORY split: option.splits)
    then show ?thesis
      using directory c True by blast
  next
    case nd: False
    show ?thesis
    proof (cases "(\<exists>c t. map_of (files st) (concatPaths dir i) = Some (RegularFile c t))
                   \<and> concatPaths dir i \<noteq> metaPath st")
      case True
      then have "(rc, st') = unlink (concatPaths dir i) (emit (FsType (concatPaths dir i)) st)"
        using assms c nd
        by (auto simp: purgeEntry_def Let_def case_prod_beta fileType_DIRECTORY fileType_REGULAR_FILE)
      then show ?thesis
        using regular c True by blast
    next
      case False
      then have "rc = 0 \<and> st' = emit (FsType (concatPaths dir i)) st"
        using assms c nd
        by (auto simp: purgeEntry_def Let_def case_prod_beta fileType_DIRECTORY fileType_REGULAR_FILE
            split: if_splits)
      then show ?thesis
        using other c nd False by blast
    qed
  qed
qed

subsection \<open>What a purge changes\<close>

lemma purgeEntry_purged:
  assumes ih: "\<And>d s b s'. purgeDirectory n d s = Some (b, s') \<Longrightarrow> purged d s s'"
    and e: "purgeEntry n dir i st = Some (rc, st')"
  shows "purged dir st st'"
  using e
proof (cases rule: purgeEntry_cases)
  case skipped
  then show ?thesis by simp
next
  case other
  then show ?thesis by simp
next
  case regular
  let ?full = "concatPaths dir i"
  have "prefix (concatPaths dir []) ?full"
    by (simp add: concatPaths_append [of dir i])
  then have "purged dir (emit (FsType ?full) st) (snd (unlink ?full (emit (FsType ?full) st)))"
    using regular by (intro purged_unlink) simp
  moreover have "st' = snd (unlink ?full (emit (FsType ?full) st))"
    using regular(1) by (metis snd_conv)
  ultimately show ?thesis
    using purged_trans [OF purged_emit] by blast
next
  case (directory sub st2)
  let ?full = "concatPaths dir i"
  let ?st1 = "emit (FsType ?full) st"
  have n: "purged dir ?st1 st2"
    using ih [OF directory(1)] by (rule purged_nested)
  have "\<not> (\<exists>c t. map_of (files st2) ?full = Some (RegularFile c t))"
    using purged_files [OF n, of ?full] directory(4) by auto
  then have "purged dir st2 (snd (unlink ?full st2))"
    by (intro purged_unlink) simp
  moreover have "st' = snd (unlink ?full st2)"
    using directory(2) by (metis snd_conv)
  ultimately show ?thesis
    using purged_trans [OF purged_emit purged_trans [OF n]] by blast
qed

lemma purgeLoop_purged:
  assumes ih: "\<And>d s b s'. purgeDirectory n d s = Some (b, s') \<Longrightarrow> purged d s s'"
  shows "purgeLoop n dir names allOK st = Some (b, st') \<Longrightarrow> purged dir st st'"
proof (induction names arbitrary: allOK st)
  case Nil
  then show ?case by simp
next
  case (Cons i rest)
  then obtain rc st1 where e: "purgeEntry n dir i st = Some (rc, st1)"
    and l: "purgeLoop n dir rest (if rc \<noteq> 0 then False else allOK) st1 = Some (b, st')"
    by (auto simp: purgeLoop_Cons split: option.splits)
  show ?case
    using purged_trans [OF purgeEntry_purged [OF ih e] Cons.IH [OF l]] .
qed

lemma purgeDirectory_purged:
  "purgeDirectory n dir st = Some (b, st') \<Longrightarrow> purged dir st st'"
proof (induction n arbitrary: dir st b st')
  case 0
  then show ?case by simp
next
  case (Suc n)
  let ?st1 = "snd (binValidForReading True st)"
  show ?case
  proof (cases "fst (binValidForReading True st)")
    case False
    then have "st' = ?st1"
      using Suc.prems by (simp add: purgeDirectory_Suc)
    then show ?thesis
      by (simp add: purged_valid)
  next
    case True
    then have "purgeLoop n dir (fst (getDirectoryContents dir ?st1)) True (emit (FsList dir) ?st1)
                 = Some (b, st')"
      using Suc.prems by (simp add: purgeDirectory_Suc)
    then have "purged dir (emit (FsList dir) ?st1) st'"
      using Suc.IH by (rule purgeLoop_purged [rotated])
    then show ?thesis
      using purged_trans [OF purged_valid purged_trans [OF purged_emit]] by blast
  qed
qed

subsection \<open>More fuel gives the same result\<close>

lemma purgeEntry_mono:
  assumes ih: "\<And>d s r. purgeDirectory n d s = Some r \<Longrightarrow> purgeDirectory (Suc n) d s = Some r"
    and e: "purgeEntry n dir i st = Some r"
  shows "purgeEntry (Suc n) dir i st = Some r"
proof (cases "purgeDirectory n (concatPaths dir i) (emit (FsType (concatPaths dir i)) st)")
  case None
  then show ?thesis
    using e by (auto simp: purgeEntry_def Let_def case_prod_beta split: if_splits)
next
  case (Some a)
  then have "purgeDirectory (Suc n) (concatPaths dir i) (emit (FsType (concatPaths dir i)) st) = Some a"
    by (rule ih)
  then show ?thesis
    using e Some by (auto simp: purgeEntry_def Let_def case_prod_beta split: if_splits)
qed

lemma purgeLoop_mono:
  assumes ih: "\<And>d s r. purgeDirectory n d s = Some r \<Longrightarrow> purgeDirectory (Suc n) d s = Some r"
  shows "purgeLoop n dir names allOK st = Some r \<Longrightarrow> purgeLoop (Suc n) dir names allOK st = Some r"
proof (induction names arbitrary: allOK st)
  case Nil
  then show ?case by simp
next
  case (Cons i rest)
  then obtain rc st1 where e: "purgeEntry n dir i st = Some (rc, st1)"
    and l: "purgeLoop n dir rest (if rc \<noteq> 0 then False else allOK) st1 = Some r"
    by (auto simp: purgeLoop_Cons split: option.splits)
  show ?case
    using purgeEntry_mono [OF ih e] Cons.IH [OF l] by (simp add: purgeLoop_Cons)
qed

lemma purgeDirectory_mono:
  "purgeDirectory n dir st = Some r \<Longrightarrow> purgeDirectory (Suc n) dir st = Some r"
proof (induction n arbitrary: dir st r)
  case 0
  then show ?case by simp
next
  case (Suc n)
  show ?case
  proof (cases "fst (binValidForReading True st)")
    case False
    then show ?thesis
      using Suc.prems by (simp add: purgeDirectory_Suc)
  next
    case True
    then have "purgeLoop n dir (fst (getDirectoryContents dir (snd (binValidForReading True st)))) True
                 (emit (FsList dir) (snd (binValidForReading True st))) = Some r"
      using Suc.prems by (simp add: purgeDirectory_Suc)
    then have "purgeLoop (Suc n) dir (fst (getDirectoryContents dir (snd (binValidForReading True st)))) True
                 (emit (FsList dir) (snd (binValidForReading True st))) = Some r"
      using Suc.IH by (rule purgeLoop_mono [rotated])
    then show ?thesis
      using True by (simp add: purgeDirectory_Suc [of "Suc n"])
  qed
qed

lemma purgeDirectory_mono_le:
  "n \<le> m \<Longrightarrow> purgeDirectory n dir st = Some r \<Longrightarrow> purgeDirectory m dir st = Some r"
  by (induction rule: dec_induct) (auto intro: purgeDirectory_mono)

subsection \<open>Enough fuel gives a result\<close>

lemma listing_nonempty: "[] \<notin> set (fst (getDirectoryContents dir st))"
  by (auto simp: getDirectoryContents_def isEntryOf_def)

lemma purgeEntry_total:
  assumes ih: "\<And>m d s. n = Suc m \<Longrightarrow> \<forall>p\<in>fst ` set (files s). length p \<le> m + length d
                 \<Longrightarrow> purgeDirectory n d s \<noteq> None"
    and bound: "\<forall>p\<in>fst ` set (files st). length p \<le> n + length dir"
    and i: "i \<noteq> []"
  shows "purgeEntry n dir i st \<noteq> None"
proof (cases "contains (concatPaths dir i) (binID st)
              \<and> map_of (files st) (concatPaths dir i) = Some Directory")
  case False
  then show ?thesis
    by (auto simp: purgeEntry_def Let_def case_prod_beta fileType_DIRECTORY)
next
  case True
  let ?full = "concatPaths dir i"
  have "?full \<in> fst ` set (files st)"
    using True by (metis map_of_SomeD fst_conv image_eqI)
  then have le: "length ?full \<le> n + length dir"
    using bound by blast
  have ge: "length dir + 1 \<le> length ?full"
    using concatPaths_length [of dir i] i by (cases i) auto
  obtain m where m: "n = Suc m"
    using le ge by (cases n) auto
  have "\<forall>p\<in>fst ` set (files (emit (FsType ?full) st)). length p \<le> m + length ?full"
    using bound ge m by fastforce
  then have "purgeDirectory n ?full (emit (FsType ?full) st) \<noteq> None"
    using m by (intro ih)
  then show ?thesis
    by (auto simp: purgeEntry_def Let_def case_prod_beta)
qed

lemma purgeLoop_total:
  assumes ih: "\<And>m d s. n = Suc m \<Longrightarrow> \<forall>p\<in>fst ` set (files s). length p \<le> m + length d
                 \<Longrightarrow> purgeDirectory n d s \<noteq> None"
  shows "\<forall>p\<in>fst ` set (files st). length p \<le> n + length dir \<Longrightarrow> [] \<notin> set names
           \<Longrightarrow> purgeLoop n dir names allOK st \<noteq> None"
proof (induction names arbitrary: allOK st)
  case Nil
  then show ?case by simp
next
  case (Cons i rest)
  have "purgeEntry n dir i st \<noteq> None"
    using Cons.prems by (intro purgeEntry_total ih) auto
  then obtain rc st1 where e: "purgeEntry n dir i st = Some (rc, st1)"
    by auto
  have "purged dir st st1"
    using purgeDirectory_purged e by (rule purgeEntry_purged)
  then have "set (files st1) \<subseteq> set (files st)"
    by (rule purged_set)
  then have "\<forall>p\<in>fst ` set (files st1). length p \<le> n + length dir"
    using Cons.prems(1) by blast
  then have "purgeLoop n dir rest (if rc \<noteq> 0 then False else allOK) st1 \<noteq> None"
    using Cons.prems(2) by (intro Cons.IH) auto
  then show ?case
    using e by (simp add: purgeLoop_Cons)
qed

lemma purgeDirectory_total:
  "\<forall>p\<in>fst ` set (files st). length p \<le> n + length dir \<Longrightarrow> purgeDirectory (Suc n) dir st \<noteq> None"
proof (induction n arbitrary: dir st)
  case 0
  have "purgeLoop 0 dir names allOK s \<noteq> None"
    if "\<forall>p\<in>fst ` set (files s). length p \<le> 0 + length dir" "[] \<notin> set names" for names allOK s
    using that by (intro purgeLoop_total) auto
  then show ?case
    using 0 listing_nonempty by (auto simp: purgeDirectory_Suc)
next
  case (Suc n)
  have "purgeLoop (Suc n) dir names allOK s \<noteq> None"
    if "\<forall>p\<in>fst ` set (files s). length p \<le> Suc n + length dir" "[] \<notin> set names" for names allOK s
    using that Suc.IH by (intro purgeLoop_total) auto
  then show ?case
    using Suc.prems listing_nonempty by (auto simp: purgeDirectory_Suc)
qed

subsection \<open>The loop goes on after a failure\<close>

lemma purgeLoop_flag:
  "purgeLoop n dir names allOK st =
     map_option (\<lambda>(b, s). (allOK \<and> b, s)) (purgeLoop n dir names True st)"
proof (induction names arbitrary: allOK st)
  case Nil
  then show ?case by simp
next
  case (Cons i rest)
  show ?case
  proof (cases "purgeEntry n dir i st")
    case None
    then show ?thesis by (simp add: purgeLoop_Cons)
  next
    case (Some a)
    obtain rc st1 where a: "a = (rc, st1)" by (cases a)
    show ?thesis
      using Some a Cons.IH [of "if rc \<noteq> 0 then False else allOK" st1]
            Cons.IH [of "if rc \<noteq> 0 then False else True" st1]
      by (cases "purgeLoop n dir rest True st1") (auto simp: purgeLoop_Cons)
  qed
qed

lemma purgeLoop_append:
  "purgeLoop n dir (xs @ ys) allOK st =
     (case purgeLoop n dir xs allOK st of
        None \<Rightarrow> None
      | Some (b1, st1) \<Rightarrow> purgeLoop n dir ys b1 st1)"
proof (induction xs arbitrary: allOK st)
  case Nil
  show ?case by simp
next
  case (Cons i rest)
  show ?case
    by (simp add: purgeLoop_Cons Cons.IH split: option.splits)
qed

subsection \<open>A failed unlink makes the result false\<close>

lemma valid_no_unlink:
  "FsUnlink p r \<notin> set (new_events st (snd (binValidForReading s st)))"
  by (simp add: binValidForReading_def fileExists_def Let_def emit_def new_events_def)

lemma purgeEntry_failures:
  assumes e: "purgeEntry n dir i st = Some (rc, st')" and rc: "rc = 0"
  shows "\<forall>p r. FsUnlink p r \<in> set (new_events st st') \<longrightarrow> r = 0"
  using e
proof (cases rule: purgeEntry_cases)
  case skipped
  then show ?thesis by simp
next
  case other
  then show ?thesis by simp
next
  case regular
  let ?full = "concatPaths dir i"
  have "st' = snd (unlink ?full (emit (FsType ?full) st))" "rc = fst (unlink ?full (emit (FsType ?full) st))"
    using regular(1) by (metis snd_conv, metis fst_conv)
  then show ?thesis
    using rc by (simp add: new_events_def)
next
  case (directory sub st2)
  let ?full = "concatPaths dir i"
  have n: "purged ?full (emit (FsType ?full) st) st2"
    using directory(1) by (rule purgeDirectory_purged)
  have "\<not> (\<exists>c t. map_of (files st2) ?full = Some (RegularFile c t))"
    using purged_files [OF n, of ?full] directory(4) by auto
  then have "fst (unlink ?full st2) = - 1"
    by (simp add: unlink_result)
  moreover have "rc = fst (unlink ?full st2)"
    using directory(2) by (metis fst_conv)
  ultimately show ?thesis
    using rc by simp
qed

lemma purgeLoop_failures:
  "purgeLoop n dir names allOK st = Some (b, st') \<Longrightarrow> b \<Longrightarrow>
     allOK \<and> (\<forall>p r. FsUnlink p r \<in> set (new_events st st') \<longrightarrow> r = 0)"
proof (induction names arbitrary: allOK st)
  case Nil
  then show ?case by simp
next
  case (Cons i rest)
  then obtain rc st1 where e: "purgeEntry n dir i st = Some (rc, st1)"
    and l: "purgeLoop n dir rest (if rc \<noteq> 0 then False else allOK) st1 = Some (b, st')"
    by (auto simp: purgeLoop_Cons split: option.splits)
  have ih: "(if rc \<noteq> 0 then False else allOK)
            \<and> (\<forall>p r. FsUnlink p r \<in> set (new_events st1 st') \<longrightarrow> r = 0)"
    using Cons.IH [OF l Cons.prems(2)] .
  then have rc: "rc = 0" and a: allOK
    by (auto split: if_splits)
  have p1: "purged dir st st1"
    using purgeDirectory_purged e by (rule purgeEntry_purged)
  have p2: "purged dir st1 st'"
    using purgeDirectory_purged l by (rule purgeLoop_purged)
  have "new_events st st' = new_events st st1 @ new_events st1 st'"
    using new_events_trans [OF purged_trace [OF p1] purged_trace [OF p2]] by simp
  then show ?case
    using purgeEntry_failures [OF e rc] ih a by auto
qed

lemma purgeDirectory_failures:
  assumes "purgeDirectory n dir st = Some (b, st')" and b
  shows "\<forall>p r. FsUnlink p r \<in> set (new_events st st') \<longrightarrow> r = 0"
proof (cases n)
  case 0
  then show ?thesis using assms by simp
next
  case (Suc m)
  let ?st1 = "snd (binValidForReading True st)"
  let ?st2 = "emit (FsList dir) ?st1"
  have v: "fst (binValidForReading True st)"
    using assms Suc by (auto simp: purgeDirectory_Suc split: if_splits)
  then have l: "purgeLoop m dir (fst (getDirectoryContents dir ?st1)) True ?st2 = Some (b, st')"
    using assms Suc by (simp add: purgeDirectory_Suc)
  have p1: "purged dir st ?st2"
    using purged_trans [OF purged_valid purged_emit] .
  have p2: "purged dir ?st2 st'"
    using purgeDirectory_purged l by (rule purgeLoop_purged)
  have "new_events st st' = new_events st ?st2 @ new_events ?st2 st'"
    using new_events_trans [OF purged_trace [OF p1] purged_trace [OF p2]] by simp
  moreover have "new_events st ?st2 = new_events st ?st1 @ [FsList dir]"
    using new_events_trans [OF purged_trace [OF purged_valid] purged_trace [OF purged_emit]]
    by simp
  ultimately show ?thesis
    using purgeLoop_failures [OF l \<open>b\<close>] valid_no_unlink [of _ _ st True] by auto
qed

subsection \<open>What the unlink calls did\<close>

lemma unlinked_refl [simp]: "unlinked st st"
  by (simp add: unlinked_def)

lemma unlinked_emit: "\<forall>p r. e \<noteq> FsUnlink p r \<Longrightarrow> unlinked st (emit e st)"
  by (auto simp: unlinked_def)

lemma unlinked_valid: "unlinked st (snd (binValidForReading s st))"
  by (simp add: unlinked_def valid_no_unlink)

lemma unlinked_unlink: "unlinked st (snd (unlink p st))"
proof -
  have e: "new_events st (snd (unlink p st)) = [FsUnlink p (fst (unlink p st))]"
    by (simp add: new_events_def)
  have a: "fst (unlink p st) = 0 \<longrightarrow>
             \<not> unlink_fails st p \<and> (\<exists>c t. map_of (files st) p = Some (RegularFile c t))"
    by (simp add: unlink_result)
  have b: "\<not> unlink_fails st p \<longrightarrow>
             map_of (files (snd (unlink p st))) p = None
             \<or> map_of (files (snd (unlink p st))) p = Some Directory"
  proof (cases "map_of (files st) p")
    case None
    then show ?thesis by (simp add: unlink_files)
  next
    case (Some v)
    then show ?thesis
      by (cases v) (simp_all add: unlink_files unlink_result)
  qed
  have c: "\<not> unlink_fails st q" if "map_of (files (snd (unlink p st))) q \<noteq> map_of (files st) q" for q
    using that by (auto simp: unlink_files unlink_result split: if_splits)
  show ?thesis
    unfolding unlinked_def e using a b c by simp
qed

lemma unlinked_attempt:
  "unlinked st st' \<Longrightarrow> FsUnlink p r \<in> set (new_events st st') \<Longrightarrow>
     (r = 0 \<longrightarrow> \<not> unlink_fails st p
                  \<and> (\<exists>c t. map_of (files st) p = Some (RegularFile c t)))
     \<and> (\<not> unlink_fails st p \<longrightarrow>
          map_of (files st') p = None \<or> map_of (files st') p = Some Directory)"
  unfolding unlinked_def by blast

lemma unlinked_changed:
  "unlinked st st' \<Longrightarrow> map_of (files st') q \<noteq> map_of (files st) q \<Longrightarrow> \<not> unlink_fails st q"
  unfolding unlinked_def by blast

lemma unlinked_trans:
  assumes p1: "purged d st st1" and p2: "purged d' st1 st2"
    and u1: "unlinked st st1" and u2: "unlinked st1 st2"
  shows "unlinked st st2"
proof -
  have ne: "new_events st st2 = new_events st st1 @ new_events st1 st2"
    using new_events_trans [OF purged_trace [OF p1] purged_trace [OF p2]] by simp
  have f: "unlink_fails st1 = unlink_fails st"
    using purged_same_bin [OF p1] by (simp add: same_bin_def)
  have a: "(r = 0 \<longrightarrow> \<not> unlink_fails st p
                  \<and> (\<exists>c t. map_of (files st) p = Some (RegularFile c t)))
     \<and> (\<not> unlink_fails st p \<longrightarrow>
          map_of (files st2) p = None \<or> map_of (files st2) p = Some Directory)"
    if "FsUnlink p r \<in> set (new_events st st2)" for p r
  proof (cases "FsUnlink p r \<in> set (new_events st st1)")
    case True
    note x = unlinked_attempt [OF u1 True]
    have "map_of (files st2) p = map_of (files st1) p"
      if "map_of (files st1) p = None \<or> map_of (files st1) p = Some Directory"
    proof (rule ccontr)
      assume "map_of (files st2) p \<noteq> map_of (files st1) p"
      then have "\<exists>c t. map_of (files st1) p = Some (RegularFile c t)"
        using purged_files [OF p2] by blast
      then show False
        using that by auto
    qed
    then show ?thesis
      using x by auto
  next
    case False
    then have "FsUnlink p r \<in> set (new_events st1 st2)"
      using that ne by simp
    note y = unlinked_attempt [OF u2 this]
    have "\<exists>c t. map_of (files st) p = Some (RegularFile c t)"
      if reg: "\<exists>c t. map_of (files st1) p = Some (RegularFile c t)"
    proof (cases "map_of (files st1) p = map_of (files st) p")
      case True
      then show ?thesis using reg by simp
    next
      case False
      then show ?thesis using purged_files [OF p1 False] by simp
    qed
    then show ?thesis
      using y f by simp
  qed
  have c: "\<not> unlink_fails st q" if "map_of (files st2) q \<noteq> map_of (files st) q" for q
  proof (cases "map_of (files st1) q = map_of (files st) q")
    case True
    then show ?thesis
      using unlinked_changed [OF u2, of q] that f by simp
  next
    case False
    then show ?thesis
      using unlinked_changed [OF u1] by blast
  qed
  show ?thesis
    unfolding unlinked_def using a c by blast
qed

lemma purgeEntry_unlinked:
  assumes ih: "\<And>d s b s'. purgeDirectory n d s = Some (b, s') \<Longrightarrow> unlinked s s'"
    and e: "purgeEntry n dir i st = Some (rc, st')"
  shows "unlinked st st'"
  using e
proof (cases rule: purgeEntry_cases)
  case skipped
  then show ?thesis by simp
next
  case other
  then show ?thesis by (simp add: unlinked_emit)
next
  case regular
  let ?full = "concatPaths dir i"
  let ?st1 = "emit (FsType ?full) st"
  have s: "st' = snd (unlink ?full ?st1)"
    using regular(1) by (metis snd_conv)
  have p1: "purged dir st ?st1"
    by simp
  have p2: "purged dir ?st1 st'"
    using purgeEntry_purged [OF purgeDirectory_purged e] purged_same_bin
    unfolding s by (intro purged_unlink)
       (use regular in \<open>simp add: concatPaths_append [of dir i]\<close>)
  show ?thesis
    using p1 p2 unlinked_emit [of "FsType ?full" st] unlinked_unlink [of ?st1 ?full]
    unfolding s by (rule unlinked_trans) simp_all
next
  case (directory sub st2)
  let ?full = "concatPaths dir i"
  let ?st1 = "emit (FsType ?full) st"
  have s: "st' = snd (unlink ?full st2)"
    using directory(2) by (metis snd_conv)
  have p1: "purged dir st ?st1"
    by simp
  have p2: "purged ?full ?st1 st2"
    using directory(1) by (rule purgeDirectory_purged)
  have "\<not> (\<exists>c t. map_of (files st2) ?full = Some (RegularFile c t))"
    using purged_files [OF p2, of ?full] directory(4) by auto
  then have p3: "purged dir st2 st'"
    unfolding s by (intro purged_unlink) simp
  have u1: "unlinked st ?st1"
    by (simp add: unlinked_emit)
  have u2: "unlinked ?st1 st2"
    using directory(1) by (rule ih)
  have u3: "unlinked st2 st'"
    unfolding s by (rule unlinked_unlink)
  have "unlinked ?st1 st'"
    using p2 p3 u2 u3 by (rule unlinked_trans)
  moreover have "purged dir ?st1 st'"
    using purged_nested [OF p2] p3 by (rule purged_trans)
  ultimately show ?thesis
    using p1 u1 unlinked_trans by blast
qed


lemma purgeLoop_unlinked:
  assumes ih: "\<And>d s b s'. purgeDirectory n d s = Some (b, s') \<Longrightarrow> unlinked s s'"
  shows "purgeLoop n dir names allOK st = Some (b, st') \<Longrightarrow> unlinked st st'"
proof (induction names arbitrary: allOK st)
  case Nil
  then show ?case by simp
next
  case (Cons i rest)
  then obtain rc st1 where e: "purgeEntry n dir i st = Some (rc, st1)"
    and l: "purgeLoop n dir rest (if rc \<noteq> 0 then False else allOK) st1 = Some (b, st')"
    by (auto simp: purgeLoop_Cons split: option.splits)
  have p1: "purged dir st st1"
    using purgeDirectory_purged e by (rule purgeEntry_purged)
  have p2: "purged dir st1 st'"
    using purgeDirectory_purged l by (rule purgeLoop_purged)
  show ?case
    using p1 p2 purgeEntry_unlinked [OF ih e] Cons.IH [OF l] by (rule unlinked_trans)
qed

lemma purgeDirectory_unlinked:
  "purgeDirectory n dir st = Some (b, st') \<Longrightarrow> unlinked st st'"
proof (induction n arbitrary: dir st b st')
  case 0
  then show ?case by simp
next
  case (Suc n)
  let ?st1 = "snd (binValidForReading True st)"
  let ?st2 = "emit (FsList dir) ?st1"
  show ?case
  proof (cases "fst (binValidForReading True st)")
    case False
    then have "st' = ?st1"
      using Suc.prems by (simp add: purgeDirectory_Suc)
    then show ?thesis
      by (simp add: unlinked_valid)
  next
    case True
    then have l: "purgeLoop n dir (fst (getDirectoryContents dir ?st1)) True ?st2 = Some (b, st')"
      using Suc.prems by (simp add: purgeDirectory_Suc)
    have u3: "unlinked ?st2 st'"
      using Suc.IH l by (rule purgeLoop_unlinked)
    have p3: "purged dir ?st2 st'"
      using purgeDirectory_purged l by (rule purgeLoop_purged)
    have p2: "purged dir ?st1 ?st2"
      by simp
    have u2: "unlinked ?st1 ?st2"
      by (simp add: unlinked_emit)
    have u23: "unlinked ?st1 st'"
      using p2 p3 u2 u3 by (rule unlinked_trans)
    have p23: "purged dir ?st1 st'"
      using p2 p3 by (rule purged_trans)
    show ?thesis
      using purged_valid p23 unlinked_valid u23 by (rule unlinked_trans)
  qed
qed

subsection \<open>A false result comes from a failed unlink\<close>

lemma purgeEntry_refused:
  assumes e: "purgeEntry n dir i st = Some (rc, st')" and rc: "rc \<noteq> 0"
  shows "\<exists>p r. FsUnlink p r \<in> set (new_events st st') \<and> r \<noteq> 0"
  using e
proof (cases rule: purgeEntry_cases)
  case skipped
  then show ?thesis using rc by simp
next
  case other
  then show ?thesis using rc by simp
next
  case regular
  let ?full = "concatPaths dir i"
  have "st' = snd (unlink ?full (emit (FsType ?full) st))" "rc = fst (unlink ?full (emit (FsType ?full) st))"
    using regular(1) by (metis snd_conv, metis fst_conv)
  then have "FsUnlink ?full rc \<in> set (new_events st st')"
    by (simp add: new_events_def)
  then show ?thesis
    using rc by blast
next
  case (directory sub st2)
  let ?full = "concatPaths dir i"
  let ?st1 = "emit (FsType ?full) st"
  have s: "st' = snd (unlink ?full st2)" "rc = fst (unlink ?full st2)"
    using directory(2) by (metis snd_conv, metis fst_conv)
  have p2: "purged ?full ?st1 st2"
    using directory(1) by (rule purgeDirectory_purged)
  have "trace st' = trace st @ [FsType ?full] @ new_events ?st1 st2 @ [FsUnlink ?full rc]"
    using purged_trace [OF p2] s by simp
  then have "new_events st st' = [FsType ?full] @ new_events ?st1 st2 @ [FsUnlink ?full rc]"
    by (simp add: new_events_def)
  then have "FsUnlink ?full rc \<in> set (new_events st st')"
    by simp
  then show ?thesis
    using rc by blast
qed

lemma purgeLoop_refused:
  "purgeLoop n dir names allOK st = Some (b, st') \<Longrightarrow> \<not> b \<Longrightarrow> allOK \<Longrightarrow>
     \<exists>p r. FsUnlink p r \<in> set (new_events st st') \<and> r \<noteq> 0"
proof (induction names arbitrary: allOK st)
  case Nil
  then show ?case by simp
next
  case (Cons i rest)
  obtain rc st1 where e: "purgeEntry n dir i st = Some (rc, st1)"
    and l: "purgeLoop n dir rest (if rc \<noteq> 0 then False else allOK) st1 = Some (b, st')"
    using Cons.prems(1) by (auto simp: purgeLoop_Cons split: option.splits)
  have p1: "purged dir st st1"
    using purgeDirectory_purged e by (rule purgeEntry_purged)
  have p2: "purged dir st1 st'"
    using purgeDirectory_purged l by (rule purgeLoop_purged)
  have ne: "new_events st st' = new_events st st1 @ new_events st1 st'"
    using new_events_trans [OF purged_trace [OF p1] purged_trace [OF p2]] by simp
  show ?case
  proof (cases "rc = 0")
    case True
    then have "purgeLoop n dir rest allOK st1 = Some (b, st')"
      using l by simp
    then have "\<exists>p r. FsUnlink p r \<in> set (new_events st1 st') \<and> r \<noteq> 0"
      using Cons.prems(2,3) by (rule Cons.IH)
    then show ?thesis
      unfolding ne by auto
  next
    case False
    have "\<exists>p r. FsUnlink p r \<in> set (new_events st st1) \<and> r \<noteq> 0"
      using e False by (rule purgeEntry_refused)
    then show ?thesis
      unfolding ne by auto
  qed
qed

lemma purgeDirectory_refused:
  assumes "purgeDirectory n dir st = Some (b, st')" and "\<not> b" and v: "fst (binValidForReading True st)"
  shows "\<exists>p r. FsUnlink p r \<in> set (new_events st st') \<and> r \<noteq> 0"
proof (cases n)
  case 0
  then show ?thesis using assms by simp
next
  case (Suc m)
  let ?st1 = "snd (binValidForReading True st)"
  let ?st2 = "emit (FsList dir) ?st1"
  have l: "purgeLoop m dir (fst (getDirectoryContents dir ?st1)) True ?st2 = Some (b, st')"
    using assms Suc by (simp add: purgeDirectory_Suc)
  have p1: "purged dir st ?st2"
    using purged_trans [OF purged_valid purged_emit] .
  have p2: "purged dir ?st2 st'"
    using purgeDirectory_purged l by (rule purgeLoop_purged)
  have ne: "new_events st st' = new_events st ?st2 @ new_events ?st2 st'"
    using new_events_trans [OF purged_trace [OF p1] purged_trace [OF p2]] by simp
  have "\<exists>p r. FsUnlink p r \<in> set (new_events ?st2 st') \<and> r \<noteq> 0"
    using l \<open>\<not> b\<close> by (rule purgeLoop_refused) simp
  then show ?thesis
    unfolding ne by auto
qed

subsection \<open>Names and paths below a directory\<close>

lemma gooddir_concat: "gooddir dir \<Longrightarrow> concatPaths dir i = dir @ ''/'' @ i"
  by (auto simp: gooddir_def concatPaths_def isDelimiter_def)

lemma gooddir_dirPrefix: "gooddir dir \<Longrightarrow> dirPrefix dir = dir @ ''/''"
  by (auto simp: gooddir_def dirPrefix_def isDelimiter_def)

lemma simple_no_slash: "simple i \<Longrightarrow> CHR ''/'' \<notin> set i"
  by (auto simp: simple_def list_ex_iff isDelimiter_def)

lemma gooddir_child: "gooddir dir \<Longrightarrow> simple i \<Longrightarrow> gooddir (concatPaths dir i)"
  by (auto simp: gooddir_concat) (auto simp: gooddir_def simple_def list_ex_iff)

lemma plain_simple: "plain i \<Longrightarrow> simple i"
  by (simp add: plain_def)

lemma contains_append: "contains dir sub \<Longrightarrow> contains (dir @ x) sub"
  unfolding contains_def sublist_def by (metis append.assoc)

lemma contains_child: "gooddir dir \<Longrightarrow> contains dir sub \<Longrightarrow> contains (concatPaths dir i) sub"
  by (simp add: gooddir_concat contains_append)

lemma name_before_slash:
  assumes "CHR ''/'' \<notin> set i" "CHR ''/'' \<notin> set j" "i @ ''/'' @ x = j @ ''/'' @ y"
  shows "i = j"
proof -
  have "takeWhile (\<lambda>c. c \<noteq> CHR ''/'') (i @ CHR ''/'' # x) = i"
       "takeWhile (\<lambda>c. c \<noteq> CHR ''/'') (j @ CHR ''/'' # y) = j"
    using assms(1,2) by (auto simp: takeWhile_tail)
  then show ?thesis
    using assms(3) by simp
qed

lemma entry_outside:
  assumes d: "gooddir dir" and i: "simple i" and j: "simple j" and ne: "j \<noteq> i"
    and q: "q = concatPaths dir j \<or> prefix (concatPaths (concatPaths dir j) []) q"
  shows "q \<noteq> concatPaths dir i \<and> \<not> prefix (concatPaths (concatPaths dir i) []) q"
proof -
  have ci: "concatPaths dir i = dir @ ''/'' @ i" "concatPaths (dir @ CHR ''/'' # i) [] = dir @ ''/'' @ i @ ''/''"
    using gooddir_concat [OF d] gooddir_concat [OF gooddir_child [OF d i]] by simp_all
  have cj: "concatPaths dir j = dir @ ''/'' @ j" "concatPaths (dir @ CHR ''/'' # j) [] = dir @ ''/'' @ j @ ''/''"
    using gooddir_concat [OF d] gooddir_concat [OF gooddir_child [OF d j]] by simp_all
  note si = simple_no_slash [OF i] and sj = simple_no_slash [OF j]
  from q show ?thesis
  proof
    assume e: "q = concatPaths dir j"
    have "\<not> prefix (i @ ''/'') j"
    proof
      assume "prefix (i @ ''/'') j"
      then obtain z where "j = (i @ ''/'') @ z" by (auto simp: prefix_def)
      then show False using sj by auto
    qed
    then show ?thesis
      using e ne by (simp add: ci cj)
  next
    assume "prefix (concatPaths (concatPaths dir j) []) q"
    then obtain z where z: "q = dir @ ''/'' @ j @ ''/'' @ z"
      by (auto simp: prefix_def cj)
    have "q \<noteq> concatPaths dir i"
    proof
      assume "q = concatPaths dir i"
      then have "i = j @ ''/'' @ z" using z by (simp add: ci)
      then show False using si by auto
    qed
    moreover have "\<not> prefix (concatPaths (concatPaths dir i) []) q"
    proof
      assume "prefix (concatPaths (concatPaths dir i) []) q"
      then obtain y where "q = dir @ ''/'' @ i @ ''/'' @ y"
        by (auto simp: prefix_def ci)
      then have "i @ ''/'' @ y = j @ ''/'' @ z"
        using z by simp
      then have "i = j"
        using si sj by (rule name_before_slash [rotated 2])
      then show False using ne by simp
    qed
    ultimately show ?thesis by simp
  qed
qed

lemma tracked_cong:
  "gooddir dir \<Longrightarrow>
   (\<And>q. q = concatPaths dir i \<or> prefix (concatPaths (concatPaths dir i) []) q
        \<Longrightarrow> map_of fs' q = map_of fs q) \<Longrightarrow>
   tracked fs dir (i # rest) \<Longrightarrow> tracked fs' dir (i # rest)"
proof (induction rest arbitrary: dir i)
  case Nil
  then show ?case by simp
next
  case (Cons k rest)
  have p: "plain i" and dd: "map_of fs (concatPaths dir i) = Some Directory"
    and t: "tracked fs (concatPaths dir i) (k # rest)"
    using Cons.prems(3) by simp_all
  have g: "gooddir (concatPaths dir i)"
    using Cons.prems(1) p by (simp add: gooddir_child plain_simple)
  have "map_of fs' q = map_of fs q"
    if "q = concatPaths (concatPaths dir i) k
        \<or> prefix (concatPaths (concatPaths (concatPaths dir i) k) []) q" for q
  proof -
    have "prefix (concatPaths (concatPaths dir i) []) q"
      using that
    proof
      assume "q = concatPaths (concatPaths dir i) k"
      then show ?thesis
        by (simp add: concatPaths_append [of "concatPaths dir i" k])
    next
      assume "prefix (concatPaths (concatPaths (concatPaths dir i) k) []) q"
      then show ?thesis
        using concatPaths_nested_prefix [of "concatPaths dir i" k]
        by (rule prefix_order.trans [rotated])
    qed
    then show ?thesis
      using Cons.prems(2) by blast
  qed
  then have "tracked fs' (concatPaths dir i) (k # rest)"
    using g t by (intro Cons.IH)
  moreover have "map_of fs' (concatPaths dir i) = Some Directory"
    using Cons.prems(2) [of "concatPaths dir i"] dd by simp
  ultimately show ?case
    using p by simp
qed

lemma tracked_head: "tracked fs dir (i # rest) \<Longrightarrow> plain i \<and> map_of fs (concatPaths dir i) \<noteq> None"
  by (cases rest) (auto split: option.splits node.splits)

lemma listing_member:
  assumes "gooddir dir" "map_of (files st) dir = Some Directory" "simple i"
    and "map_of (files st) (concatPaths dir i) \<noteq> None"
  shows "i \<in> set (fst (getDirectoryContents dir st))"
proof -
  obtain v where "(dir @ ''/'' @ i, v) \<in> set (files st)"
    using assms(1,4) by (auto simp: gooddir_concat dest: map_of_SomeD)
  moreover have "isEntryOf dir (dir @ ''/'' @ i)"
    using assms(1,3) simple_no_slash [OF assms(3)]
    by (simp add: isEntryOf_def gooddir_dirPrefix simple_def)
  ultimately have "drop (length (dirPrefix dir)) (dir @ ''/'' @ i)
      \<in> (\<lambda>e. drop (length (dirPrefix dir)) (fst e)) ` {e \<in> set (files st). isEntryOf dir (fst e)}"
    by force
  then show ?thesis
    using assms(1,2) by (simp add: getDirectoryContents_def gooddir_dirPrefix gooddir_def)
qed

lemma listing_simple:
  assumes "clean (files st)"
  shows "\<forall>j\<in>set (fst (getDirectoryContents dir st)). simple j"
proof
  fix j assume "j \<in> set (fst (getDirectoryContents dir st))"
  then consider "j = ''.''" | "j = ''..''"
    | p where "p \<in> fst ` set (files st)" "isEntryOf dir p" "j = drop (length (dirPrefix dir)) p"
    by (auto simp: getDirectoryContents_def split: if_splits)
  then show "simple j"
  proof cases
    case 1
    then show ?thesis by (simp add: simple_def isDelimiter_def)
  next
    case 2
    then show ?thesis by (simp add: simple_def isDelimiter_def)
  next
    case 3
    have "CHR 0x5C \<notin> set p"
      using assms 3(1) by (auto simp: clean_def)
    then have "CHR 0x5C \<notin> set j"
      using 3(3) by (auto dest: in_set_dropD)
    then show ?thesis
      using 3(2,3) by (auto simp: simple_def isEntryOf_def list_ex_iff isDelimiter_def)
  qed
qed

lemma clean_subset: "clean fs \<Longrightarrow> set fs' \<subseteq> set fs \<Longrightarrow> clean fs'"
  by (auto simp: clean_def)

subsection \<open>Every tracked file is attempted\<close>

lemma purgeEntry_changes:
  assumes e: "purgeEntry n dir j st = Some (rc, st1)"
    and q: "map_of (files st1) q \<noteq> map_of (files st) q"
  shows "q = concatPaths dir j \<or> prefix (concatPaths (concatPaths dir j) []) q"
  using e
proof (cases rule: purgeEntry_cases)
  case skipped
  then show ?thesis using q by simp
next
  case other
  then show ?thesis using q by simp
next
  case regular
  then have "st1 = snd (unlink (concatPaths dir j) (emit (FsType (concatPaths dir j)) st))"
    by (metis snd_conv)
  then show ?thesis
    using q by (auto simp: unlink_files split: if_splits)
next
  case (directory sub st2)
  let ?full = "concatPaths dir j"
  have s: "st1 = snd (unlink ?full st2)"
    using directory(2) by (metis snd_conv)
  show ?thesis
  proof (cases "map_of (files st1) q = map_of (files st2) q")
    case True
    then have "map_of (files st2) q \<noteq> map_of (files (emit (FsType ?full) st)) q"
      using q by simp
    then show ?thesis
      using purged_files [OF purgeDirectory_purged [OF directory(1)]] by blast
  next
    case False
    then show ?thesis
      using s by (auto simp: unlink_files split: if_splits)
  qed
qed

lemma purgeEntry_attempts:
  assumes ih: "\<And>d s b s' ns. purgeDirectory n d s = Some (b, s') \<Longrightarrow> fst (binValidForReading True s)
                 \<Longrightarrow> gooddir d \<Longrightarrow> contains d (binID s)
                 \<Longrightarrow> map_of (files s) d = Some Directory \<Longrightarrow> clean (files s)
                 \<Longrightarrow> tracked (files s) d ns \<Longrightarrow> descend d ns \<noteq> metaPath s
                 \<Longrightarrow> \<exists>r. FsUnlink (descend d ns) r \<in> set (new_events s s')"
    and e: "purgeEntry n dir i st = Some (rc, st1)"
    and v: "rw st" "binPathExists st" "ok st"
    and d: "gooddir dir" and c: "contains dir (binID st)" and cl: "clean (files st)"
    and t: "tracked (files st) dir (i # rest)"
    and m: "descend dir (i # rest) \<noteq> metaPath st"
  shows "\<exists>r. FsUnlink (descend dir (i # rest)) r \<in> set (new_events st st1)"
proof -
  let ?full = "concatPaths dir i"
  let ?st' = "emit (FsType ?full) st"
  have cf: "contains ?full (binID st)"
    using d c by (rule contains_child)
  have p: "plain i"
    using t tracked_head by blast
  show ?thesis
  proof (cases rest)
    case Nil
    then obtain v where ex: "map_of (files st) ?full = Some v" and ne: "?full \<noteq> metaPath st"
      using t m by auto
    from e show ?thesis
    proof (cases rule: purgeEntry_cases)
      case skipped
      then show ?thesis using cf by simp
    next
      case other
      then show ?thesis using ex ne p by (cases v) (auto simp: plain_def)
    next
      case regular
      then have "st1 = snd (unlink ?full ?st')"
        by (metis snd_conv)
      then show ?thesis
        using Nil by (auto simp: new_events_def)
    next
      case (directory sub st2)
      have s: "st1 = snd (unlink ?full st2)"
        using directory(2) by (metis snd_conv)
      have p2: "purged ?full ?st' st2"
        using directory(1) by (rule purgeDirectory_purged)
      have "trace st1 = trace st @ [FsType ?full] @ new_events ?st' st2
              @ [FsUnlink ?full (fst (unlink ?full st2))]"
        using purged_trace [OF p2] s by simp
      then have "new_events st st1 = [FsType ?full] @ new_events ?st' st2
              @ [FsUnlink ?full (fst (unlink ?full st2))]"
        by (simp add: new_events_def)
      then show ?thesis
        using Nil by auto
    qed
  next
    case (Cons k r)
    then have dir: "map_of (files st) ?full = Some Directory"
      and t': "tracked (files st) ?full (k # r)"
      using t by simp_all
    from e show ?thesis
    proof (cases rule: purgeEntry_cases)
      case skipped
      then show ?thesis using cf by simp
    next
      case other
      then show ?thesis using dir p by (simp add: plain_def)
    next
      case regular
      then show ?thesis using dir by auto
    next
      case (directory sub st2)
      have "binValidForReading True ?st' = (True, ?st')"
        using v by (simp add: binValidForReading_cached)
      then have "\<exists>r'. FsUnlink (descend ?full (k # r)) r' \<in> set (new_events ?st' st2)"
        using directory(1) d p cf t' m Cons dir cl
        by (intro ih) (simp_all add: gooddir_child plain_simple)
      then obtain r' where ev: "FsUnlink (descend dir (i # rest)) r' \<in> set (new_events ?st' st2)"
        using Cons by auto
      have s: "st1 = snd (unlink ?full st2)"
        using directory(2) by (metis snd_conv)
      have p2: "purged ?full ?st' st2"
        using directory(1) by (rule purgeDirectory_purged)
      have "trace st1 = trace st @ [FsType ?full] @ new_events ?st' st2
              @ [FsUnlink ?full (fst (unlink ?full st2))]"
        using purged_trace [OF p2] s by simp
      then have "new_events st st1 = [FsType ?full] @ new_events ?st' st2
              @ [FsUnlink ?full (fst (unlink ?full st2))]"
        by (simp add: new_events_def)
      then show ?thesis
        using ev by auto
    qed
  qed
qed

lemma purgeLoop_attempts:
  assumes ih: "\<And>d s b s' ns. purgeDirectory n d s = Some (b, s') \<Longrightarrow> fst (binValidForReading True s)
                 \<Longrightarrow> gooddir d \<Longrightarrow> contains d (binID s)
                 \<Longrightarrow> map_of (files s) d = Some Directory \<Longrightarrow> clean (files s)
                 \<Longrightarrow> tracked (files s) d ns \<Longrightarrow> descend d ns \<noteq> metaPath s
                 \<Longrightarrow> \<exists>r. FsUnlink (descend d ns) r \<in> set (new_events s s')"
    and d: "gooddir dir"
  shows "purgeLoop n dir names allOK st = Some (b, st') \<Longrightarrow> i \<in> set names
           \<Longrightarrow> \<forall>j\<in>set names. simple j
           \<Longrightarrow> rw st \<Longrightarrow> binPathExists st \<Longrightarrow> ok st
           \<Longrightarrow> contains dir (binID st) \<Longrightarrow> clean (files st)
           \<Longrightarrow> tracked (files st) dir (i # rest)
           \<Longrightarrow> descend dir (i # rest) \<noteq> metaPath st
           \<Longrightarrow> \<exists>r. FsUnlink (descend dir (i # rest)) r \<in> set (new_events st st')"
proof (induction names arbitrary: allOK st)
  case Nil
  then show ?case by simp
next
  case (Cons j ns)
  obtain rc st1 where e: "purgeEntry n dir j st = Some (rc, st1)"
    and l: "purgeLoop n dir ns (if rc \<noteq> 0 then False else allOK) st1 = Some (b, st')"
    using Cons.prems(1) by (auto simp: purgeLoop_Cons split: option.splits)
  have p1: "purged dir st st1"
    using purgeDirectory_purged e by (rule purgeEntry_purged)
  have p2: "purged dir st1 st'"
    using purgeDirectory_purged l by (rule purgeLoop_purged)
  have ne: "new_events st st' = new_events st st1 @ new_events st1 st'"
    using new_events_trans [OF purged_trace [OF p1] purged_trace [OF p2]] by simp
  show ?case
  proof (cases "j = i")
    case True
    have "\<exists>r. FsUnlink (descend dir (i # rest)) r \<in> set (new_events st st1)"
      using ih e [unfolded True] Cons.prems(4-6) d Cons.prems(7-10)
      by (rule purgeEntry_attempts)
    then show ?thesis
      using ne by auto
  next
    case False
    have pi: "plain i"
      using Cons.prems(9) tracked_head by blast
    have sj: "simple j"
      using Cons.prems(3) by simp
    have same: "map_of (files st1) q = map_of (files st) q"
      if "q = concatPaths dir i \<or> prefix (concatPaths (concatPaths dir i) []) q" for q
    proof (rule ccontr)
      assume "map_of (files st1) q \<noteq> map_of (files st) q"
      then have "q = concatPaths dir j \<or> prefix (concatPaths (concatPaths dir j) []) q"
        using e by (rule purgeEntry_changes [rotated])
      then show False
        using entry_outside [OF d plain_simple [OF pi] sj False] that by blast
    qed
    have b: "same_bin st st1"
      using p1 by (rule purged_same_bin)
    have t1: "tracked (files st1) dir (i # rest)"
      using d same Cons.prems(9) by (rule tracked_cong)
    have c1: "clean (files st1)"
      using Cons.prems(8) purged_set [OF p1] by (rule clean_subset)
    have f1: "rw st1 \<and> binPathExists st1 \<and> ok st1"
      using purged_flags [OF p1] Cons.prems(4-6) by blast
    have "\<exists>r. FsUnlink (descend dir (i # rest)) r \<in> set (new_events st1 st')"
      using l Cons.prems(2,3,7,10) False t1 f1 b c1
      by (intro Cons.IH) (auto simp: same_bin_def)
    then show ?thesis
      using ne by auto
  qed
qed

lemma purgeDirectory_attempts:
  "purgeDirectory n dir st = Some (b, st') \<Longrightarrow> fst (binValidForReading True st)
     \<Longrightarrow> gooddir dir \<Longrightarrow> contains dir (binID st)
     \<Longrightarrow> map_of (files st) dir = Some Directory \<Longrightarrow> clean (files st)
     \<Longrightarrow> tracked (files st) dir names \<Longrightarrow> descend dir names \<noteq> metaPath st
     \<Longrightarrow> \<exists>r. FsUnlink (descend dir names) r \<in> set (new_events st st')"
proof (induction n arbitrary: dir st b st' names)
  case 0
  then show ?case by simp
next
  case (Suc n)
  let ?st1 = "snd (binValidForReading True st)"
  let ?st2 = "emit (FsList dir) ?st1"
  obtain i rest where names: "names = i # rest"
    using Suc.prems(7) by (cases names) auto
  have l: "purgeLoop n dir (fst (getDirectoryContents dir ?st1)) True ?st2 = Some (b, st')"
    using Suc.prems(1,2) by (simp add: purgeDirectory_Suc)
  have pi: "plain i" and ex: "map_of (files st) (concatPaths dir i) \<noteq> None"
    using Suc.prems(7) tracked_head names by blast+
  have mem: "i \<in> set (fst (getDirectoryContents dir ?st1))"
    using Suc.prems(3,5) pi ex by (intro listing_member) (simp_all add: plain_simple)
  have sim: "\<forall>j\<in>set (fst (getDirectoryContents dir ?st1)). simple j"
    using Suc.prems(6) by (intro listing_simple) simp
  have fl: "rw ?st2" "binPathExists ?st2" "ok ?st2"
    using binValidForReading_true [OF Suc.prems(2)] by simp_all
  have "\<exists>r. FsUnlink (descend dir (i # rest)) r \<in> set (new_events ?st2 st')"
    using Suc.IH Suc.prems(3) l mem sim fl
  proof (rule purgeLoop_attempts)
    show "contains dir (binID ?st2)" using Suc.prems(4) by simp
    show "clean (files ?st2)" using Suc.prems(6) by simp
    show "tracked (files ?st2) dir (i # rest)" using Suc.prems(7) names by simp
    show "descend dir (i # rest) \<noteq> metaPath ?st2" using Suc.prems(8) names by simp
  qed
  moreover have "new_events st st' = new_events st ?st2 @ new_events ?st2 st'"
    using new_events_trans [OF purged_trace [OF purged_trans [OF purged_valid purged_emit]]
            purged_trace [OF purgeLoop_purged [OF purgeDirectory_purged l]]]
    by simp
  ultimately show ?case
    using names by auto
qed

subsection \<open>clear\<close>

lemma clear_mono: "clear n st = Some r \<Longrightarrow> n \<le> m \<Longrightarrow> clear m st = Some r"
  by (auto simp: clear_def Let_def case_prod_beta intro: purgeDirectory_mono_le split: if_splits)

lemma path_length_le_sum:
  "p \<in> fst ` set fs \<Longrightarrow> length p \<le> sum_list (map (\<lambda>e. length (fst e)) fs)"
  by (induction fs) fastforce+

lemma getFilePath_file:
  "\<not> list_ex isDelimiter name \<Longrightarrow> getFilePath (x @ ''/'' @ name) = x"
  by (induction x) (auto simp: isDelimiter_def)

lemma binDir_of_bin:
  assumes "simple a"
  shows "getFilePath (concatPaths (concatPaths root a) ''osgearth_cacheinfo.json'')
           = concatPaths root [] @ a"
    and "gooddir (concatPaths root [] @ a)"
proof -
  show g: "gooddir (concatPaths root [] @ a)"
    using assms by (auto simp: gooddir_def simple_def list_ex_iff)
  have "concatPaths (concatPaths root a) ''osgearth_cacheinfo.json''
          = (concatPaths root [] @ a) @ ''/'' @ ''osgearth_cacheinfo.json''"
    using gooddir_concat [OF g] by (simp add: concatPaths_append [of root a])
  moreover have "\<not> list_ex isDelimiter ''osgearth_cacheinfo.json''"
    by (simp add: isDelimiter_def)
  ultimately show "getFilePath (concatPaths (concatPaths root a) ''osgearth_cacheinfo.json'')
           = concatPaths root [] @ a"
    using getFilePath_file by metis
qed

lemma sibling_outside:
  assumes a: "simple a" and b: "simple b" and ne: "b \<noteq> a"
    and q: "prefix (concatPaths (concatPaths root b) []) q"
  shows "\<not> prefix (concatPaths (getFilePath (concatPaths (concatPaths root a) ''osgearth_cacheinfo.json'')) []) q"
proof
  let ?r = "concatPaths root []"
  assume "prefix (concatPaths (getFilePath (concatPaths (concatPaths root a) ''osgearth_cacheinfo.json'')) []) q"
  then have "prefix ((?r @ a) @ ''/'') q"
    using binDir_of_bin [OF a, of root] gooddir_concat [of "?r @ a" "[]"] by simp
  then obtain x where x: "q = ?r @ a @ ''/'' @ x"
    by (auto simp: prefix_def)
  have "prefix ((?r @ b) @ ''/'') q"
    using q binDir_of_bin(2) [OF b, of root] gooddir_concat [of "?r @ b" "[]"]
    by (simp add: concatPaths_append [of root b])
  then obtain y where "q = ?r @ b @ ''/'' @ y"
    by (auto simp: prefix_def)
  then have "a @ ''/'' @ x = b @ ''/'' @ y"
    using x by simp
  then have "a = b"
    using simple_no_slash [OF a] simple_no_slash [OF b] by (rule name_before_slash [rotated 2])
  then show False
    using ne by simp
qed

lemma clear_result:
  obtains n b st' where
    "\<forall>m\<ge>n. clear m st = Some (b, st')"
    "purged (getFilePath (metaPath st)) st st'"
    "unlinked st st'"
    "b \<Longrightarrow> fst (binValidForReading True st)
           \<and> (\<forall>p r. FsUnlink p r \<in> set (new_events st st') \<longrightarrow> r = 0)"
    "\<not> b \<Longrightarrow> fst (binValidForReading True st)
           \<Longrightarrow> \<exists>p r. FsUnlink p r \<in> set (new_events st st') \<and> r \<noteq> 0"
    "\<not> fst (binValidForReading True st) \<Longrightarrow> st' = snd (binValidForReading True st)"
    "\<And>names. fst (binValidForReading True st) \<Longrightarrow> gooddir (getFilePath (metaPath st))
        \<Longrightarrow> contains (getFilePath (metaPath st)) (binID st)
        \<Longrightarrow> map_of (files st) (getFilePath (metaPath st)) = Some Directory
        \<Longrightarrow> clean (files st)
        \<Longrightarrow> tracked (files st) (getFilePath (metaPath st)) names
        \<Longrightarrow> descend (getFilePath (metaPath st)) names \<noteq> metaPath st
        \<Longrightarrow> \<exists>r. FsUnlink (descend (getFilePath (metaPath st)) names) r \<in> set (new_events st st')"
proof (cases "fst (binValidForReading True st)")
  case False
  let ?st1 = "snd (binValidForReading True st)"
  show ?thesis
  proof (rule that [of 0 False ?st1])
    show "\<forall>m\<ge>0. clear m st = Some (False, ?st1)"
      using False by (simp add: clear_def Let_def case_prod_beta)
    show "purged (getFilePath (metaPath st)) st ?st1"
      by (rule purged_valid)
    show "unlinked st ?st1"
      by (rule unlinked_valid)
  qed (use False in simp_all)
next
  case True
  let ?st1 = "snd (binValidForReading True st)"
  let ?dir = "getFilePath (metaPath st)"
  let ?n = "Suc (sum_list (map (\<lambda>e. length (fst e)) (files st)))"
  have "\<forall>p\<in>fst ` set (files ?st1). length p \<le> sum_list (map (\<lambda>e. length (fst e)) (files st)) + length ?dir"
  proof
    fix p assume "p \<in> fst ` set (files ?st1)"
    then have "p \<in> fst ` set (files st)" by simp
    then have "length p \<le> sum_list (map (\<lambda>e. length (fst e)) (files st))"
      by (rule path_length_le_sum)
    then show "length p \<le> sum_list (map (\<lambda>e. length (fst e)) (files st)) + length ?dir"
      by simp
  qed
  then have "purgeDirectory ?n ?dir ?st1 \<noteq> None"
    by (rule purgeDirectory_total)
  then obtain b st' where r: "purgeDirectory ?n ?dir ?st1 = Some (b, st')"
    by auto
  have c: "\<forall>m\<ge>?n. clear m st = Some (b, st')"
  proof (intro allI impI)
    fix m assume "?n \<le> m"
    then have "purgeDirectory m ?dir ?st1 = Some (b, st')"
      using r by (rule purgeDirectory_mono_le)
    then show "clear m st = Some (b, st')"
      using True by (simp add: clear_def Let_def case_prod_beta)
  qed
  have p1: "purged ?dir st ?st1"
    by (rule purged_valid)
  have p2: "purged ?dir ?st1 st'"
    using r by (rule purgeDirectory_purged)
  have p: "purged ?dir st st'"
    using p1 p2 by (rule purged_trans)
  have u: "unlinked st st'"
    using p1 p2 unlinked_valid purgeDirectory_unlinked [OF r] by (rule unlinked_trans)
  have ne: "new_events st st' = new_events st ?st1 @ new_events ?st1 st'"
    using new_events_trans [OF purged_trace [OF p1] purged_trace [OF p2]] by simp
  have v1: "fst (binValidForReading True ?st1)"
    using True by (simp add: binValidForReading_again)
  have f: "fst (binValidForReading True st)
           \<and> (\<forall>p r. FsUnlink p r \<in> set (new_events st st') \<longrightarrow> r = 0)" if b
    using purgeDirectory_failures [OF r that] valid_no_unlink [of _ _ st True] True
    unfolding ne by auto
  have g: "\<exists>p r. FsUnlink p r \<in> set (new_events st st') \<and> r \<noteq> 0" if "\<not> b"
    using purgeDirectory_refused [OF r that v1] unfolding ne by auto
  have a: "\<exists>r. FsUnlink (descend ?dir names) r \<in> set (new_events st st')"
    if "gooddir ?dir" "contains ?dir (binID st)" "map_of (files st) ?dir = Some Directory"
       "clean (files st)" "tracked (files st) ?dir names" "descend ?dir names \<noteq> metaPath st"
    for names
  proof -
    have "\<exists>r. FsUnlink (descend ?dir names) r \<in> set (new_events ?st1 st')"
      using r
    proof (rule purgeDirectory_attempts)
      show "fst (binValidForReading True ?st1)"
        by (rule v1)
      show "gooddir ?dir" "contains ?dir (binID ?st1)" "map_of (files ?st1) ?dir = Some Directory"
        "clean (files ?st1)" "tracked (files ?st1) ?dir names" "descend ?dir names \<noteq> metaPath ?st1"
        using that by simp_all
    qed
    then show ?thesis
      unfolding ne by auto
  qed
  have i: "st' = snd (binValidForReading True st)" if "\<not> fst (binValidForReading True st)"
    using that True by simp
  show ?thesis
    using c p u f g i a by (rule that)
qed

section \<open>The claims\<close>

subsection \<open>C3: the write task\<close>

text \<open>
  Claim C3. In every execution of the write task, run inline by \<open>write\<close> or by a
  worker of the pool: the effects are, in this order, the acquisition of the gate
  of the key, the check for the home directory (and its creation when missing), the
  write of the object, the write of the metadata sidecar exactly when the object
  was written and the metadata is not empty, a warning exactly when the object was
  not written, the removal of the key from the write-pending overlay, and the
  release of the gate. So the sidecar is written only after a successful primary
  write with non-empty metadata (and the sidecar file is otherwise untouched), the
  overlay entry is removed after the write attempt whether it succeeded or not,
  and everything happens inside one acquisition of the gate.
\<close>

theorem write_task_protocol:
  "trace (WriteOperation_call w st) =
     trace st @ [GateAcquire (op_uri w), FsExists (getFilePath (op_uri w))]
       @ (if map_of (files st) (getFilePath (op_uri w)) = None
          then [FsMkdir (getFilePath (op_uri w))] else [])
       @ [RwWrite (op_uri w @ OSG_EXT)
            (\<not> write_fails st (op_uri w @ OSG_EXT)
             \<and> map_of (files st) (op_uri w @ OSG_EXT) \<noteq> Some Directory)]
       @ (if op_meta w \<noteq> []
             \<and> \<not> write_fails st (op_uri w @ OSG_EXT)
             \<and> map_of (files st) (op_uri w @ OSG_EXT) \<noteq> Some Directory
          then [MetaWrite (op_uri w @ ''.meta'')] else [])
       @ (if \<not> write_fails st (op_uri w @ OSG_EXT)
             \<and> map_of (files st) (op_uri w @ OSG_EXT) \<noteq> Some Directory
          then [] else [Warn ''FAILED to write''])
       @ [OverlayErase (op_uri w), GateRelease (op_uri w)]
   \<and> writeCache (WriteOperation_call w st) = (writeCache st)(op_uri w := None)
   \<and> (op_meta w = [] \<or> write_fails st (op_uri w @ OSG_EXT)
        \<or> map_of (files st) (op_uri w @ OSG_EXT) = Some Directory
      \<longrightarrow> map_of (files (WriteOperation_call w st)) (op_uri w @ ''.meta'')
            = map_of (files st) (op_uri w @ ''.meta''))
   \<and> (threadPool st = Some (w # q)
      \<longrightarrow> worker_step st = WriteOperation_call w (st\<lparr>threadPool := Some q\<rparr>))
   \<and> (fst (binValidForWriting False st) \<and> (threadPool st = None \<or> isNode ob)
      \<longrightarrow> snd (write_obj key (Some ob) m st)
            = WriteOperation_call \<lparr>op_uri = uri_full st key (metaPath st), op_object = ob, op_meta = m\<rparr>
                (snd (binValidForWriting False st)))"
proof -
  have inline: "snd (write_obj key (Some ob) m st)
            = WriteOperation_call \<lparr>op_uri = uri_full st key (metaPath st), op_object = ob, op_meta = m\<rparr>
                (snd (binValidForWriting False st))"
    if "fst (binValidForWriting False st)" "threadPool st = None \<or> isNode ob"
    using that by (auto simp: write_obj_def Let_def case_prod_beta)
  have pooled: "worker_step st = WriteOperation_call w (st\<lparr>threadPool := Some q\<rparr>)"
    if "threadPool st = Some (w # q)"
    using that by (simp add: worker_step_def)
  show ?thesis
    using inline pooled
    by (simp add: WriteOperation_call_trace WriteOperation_call_files)
qed

theorem write_task_protocol_witness:
  "trace (WriteOperation_call op_alpha bin_disk_full) =
     [GateAcquire ''/tmp/c/bin/alpha'', FsExists ''/tmp/c/bin'',
      RwWrite ''/tmp/c/bin/alpha.osgb'' False, Warn ''FAILED to write'',
      OverlayErase ''/tmp/c/bin/alpha'', GateRelease ''/tmp/c/bin/alpha'']
   \<and> trace (WriteOperation_call op_alpha bin_inline) =
     [GateAcquire ''/tmp/c/bin/alpha'', FsExists ''/tmp/c/bin'',
      RwWrite ''/tmp/c/bin/alpha.osgb'' True, MetaWrite ''/tmp/c/bin/alpha.meta'',
      OverlayErase ''/tmp/c/bin/alpha'', GateRelease ''/tmp/c/bin/alpha'']
   \<and> map_of (files (WriteOperation_call op_alpha bin_disk_full)) ''/tmp/c/bin/alpha.meta'' = None
   \<and> worker_step (bin_pooled\<lparr>threadPool := Some [op_alpha]\<rparr>)
       = WriteOperation_call op_alpha (bin_pooled\<lparr>threadPool := Some []\<rparr>)"
  using write_task_protocol [of op_alpha bin_disk_full]
        write_task_protocol [of op_alpha bin_inline]
        write_task_protocol [where st = "bin_pooled\<lparr>threadPool := Some [op_alpha]\<rparr>" and w = op_alpha and q = "[]"]
  by (simp add: op_alpha_def bin_disk_full_def bin_inline_def bin_pooled_def FileSystemCacheBin_def disk0_def
        OSG_EXT_def isDelimiter_def)

subsection \<open>C9: the result of write\<close>

text \<open>
  Claim C9. \<open>write\<close> returns false if and only if the bin is not valid for writing
  or the object pointer is null. In particular it returns true when the write is
  done on the calling thread and the codec fails to write the file, and when the
  write is handed to the pool, where the disk is not touched before the call
  returns: the result never tells whether the disk write succeeded.
\<close>

theorem write_result_ignores_disk:
  "fst (write_obj key obj m st) = (fst (binValidForWriting False st) \<and> obj \<noteq> None)
   \<and> (fst (binValidForWriting False st) \<and> (threadPool st = None \<or> isNode ob)
        \<and> write_fails st (uri_full st key (metaPath st) @ OSG_EXT)
      \<longrightarrow> fst (write_obj key (Some ob) m st)
          \<and> RwWrite (uri_full st key (metaPath st) @ OSG_EXT) False
               \<in> set (trace (snd (write_obj key (Some ob) m st))))
   \<and> (fst (binValidForWriting False st) \<and> threadPool st \<noteq> None \<and> \<not> isNode ob
      \<longrightarrow> fst (write_obj key (Some ob) m st)
          \<and> files (snd (write_obj key (Some ob) m st)) = files (snd (binValidForWriting False st)))"
proof -
  have r: "fst (write_obj key obj m st) = (fst (binValidForWriting False st) \<and> obj \<noteq> None)" for obj
    by (simp add: write_obj_def Let_def case_prod_beta split: option.splits)
  have sync: "RwWrite (uri_full st key (metaPath st) @ OSG_EXT) False
               \<in> set (trace (snd (write_obj key (Some ob) m st)))"
    if "fst (binValidForWriting False st)" "threadPool st = None \<or> isNode ob"
       "write_fails st (uri_full st key (metaPath st) @ OSG_EXT)"
    using that by (auto simp: write_obj_def Let_def case_prod_beta WriteOperation_call_trace)
  have async: "files (snd (write_obj key (Some ob) m st)) = files (snd (binValidForWriting False st))"
    if "fst (binValidForWriting False st)" "threadPool st \<noteq> None" "\<not> isNode ob"
    using that by (auto simp: write_obj_def Let_def case_prod_beta threadPool_run_def)
  show ?thesis
    using r sync async by simp
qed

theorem write_result_ignores_disk_witness:
  "fst (write_obj ''alpha'' (Some (Generic ''blob1'')) [] bin_disk_full)
   \<and> RwWrite ''/tmp/c/bin/alpha.osgb'' False
        \<in> set (trace (snd (write_obj ''alpha'' (Some (Generic ''blob1'')) [] bin_disk_full)))
   \<and> \<not> fst (write_obj ''alpha'' None [] bin_disk_full)
   \<and> \<not> fst (write_obj ''alpha'' (Some (Generic ''blob1'')) [] (bin_inline\<lparr>rw := False\<rparr>))"
proof -
  have v: "fst (binValidForWriting False bin_disk_full)"
    by code_simp
  have f: "write_fails bin_disk_full (uri_full bin_disk_full ''alpha'' (metaPath bin_disk_full) @ OSG_EXT)"
    by (simp add: bin_disk_full_def)
  have t: "threadPool bin_disk_full = None"
    by (simp add: bin_disk_full_def bin_inline_def FileSystemCacheBin_def)
  have u: "uri_full bin_disk_full ''alpha'' (metaPath bin_disk_full) @ OSG_EXT = ''/tmp/c/bin/alpha.osgb''"
    by code_simp
  have w: "\<not> fst (binValidForWriting False (bin_inline\<lparr>rw := False\<rparr>))"
    by (simp add: binValidForWriting_def)
  show ?thesis
    using write_result_ignores_disk [of "''alpha''" "Some (Generic ''blob1'')" "[]" bin_disk_full "Generic ''blob1''"]
          write_result_ignores_disk [of "''alpha''" None "[]" bin_disk_full]
          write_result_ignores_disk [of "''alpha''" "Some (Generic ''blob1'')" "[]" "bin_inline\<lparr>rw := False\<rparr>"]
          v f t u w
    by simp
qed

subsection \<open>C1: reading what was just written\<close>

text \<open>
  Claim C1 says that \<open>write(k, o, meta)\<close> followed by \<open>read(k)\<close> returns \<open>o\<close> and the
  metadata even when the file is not on disk yet. On the pooled example bin the
  write of a new key \<open>alpha\<close> returns true, leaves the object in the write-pending
  overlay and the operation in the pool's queue, and the read that follows returns
  \<^verbatim>\<open>RESULT_NOT_FOUND\<close>: \<open>readObject\<close> returns at its file-existence check, which
  comes before the look-up in the overlay.
\<close>

theorem read_after_pooled_write_misses:
  "fst (write_obj ''alpha'' (Some (Generic ''blob1'')) [] bin_pooled)
   \<and> writeCache (snd (write_obj ''alpha'' (Some (Generic ''blob1'')) [] bin_pooled)) ''/tmp/c/bin/alpha''
       = Some \<lparr>meta = [], object = Generic ''blob1''\<rparr>
   \<and> threadPool (snd (write_obj ''alpha'' (Some (Generic ''blob1'')) [] bin_pooled))
       = Some [\<lparr>op_uri = ''/tmp/c/bin/alpha'', op_object = Generic ''blob1'', op_meta = []\<rparr>]
   \<and> fst (readObject ''alpha'' (snd (write_obj ''alpha'' (Some (Generic ''blob1'')) [] bin_pooled)))
       = RESULT_NOT_FOUND"
  by code_simp

subsection \<open>C2: the overlay and the gate\<close>

text \<open>
  Claim C2 says that a read of a key in the overlay never acquires the gate of the
  key. On the example bin with a pending write of \<open>alpha\<close> the read returns the
  overlay's object and metadata, and its trace shows the gate acquired before the
  overlay is consulted.
\<close>

theorem overlay_read_takes_gate:
  "writeCache bin_pending ''/tmp/c/bin/alpha''
       = Some \<lparr>meta = [(''k'', ''v'')], object = Generic ''blob1''\<rparr>
   \<and> fst (readObject ''alpha'' bin_pending) = Found (Some (Generic ''blob1'')) [(''k'', ''v'')] 0
   \<and> trace (snd (readObject ''alpha'' bin_pending)) =
       trace bin_pending @
       [FsExists ''/tmp/c/bin/alpha.osgb'', FsMTime ''/tmp/c/bin/alpha.osgb'',
        GateAcquire ''/tmp/c/bin/alpha'', OverlayFind ''/tmp/c/bin/alpha'',
        GateRelease ''/tmp/c/bin/alpha'']"
  by code_simp

text \<open>
  Claim C2 as amended. A read (\<open>readObject\<close> or \<open>readImage\<close>) on a bin that is valid
  for reading, of a key whose primary file exists, acquires the gate of the key
  right after the existence check and the time stamp, and releases it as its last
  effect, whether or not the overlay holds the key. When the bin has a pool and
  the overlay holds the key, the read returns the overlay's object (for
  \<open>readImage\<close>, null when it is not an image) and metadata, and between acquiring
  and releasing the gate it only looks into the overlay: neither the object file
  nor the sidecar is read.
\<close>

theorem overlay_read_inside_gate:
  assumes "fst (binValidForReading True st)"
    and "map_of (files st) (uri_full st key (metaPath st) @ OSG_EXT) \<noteq> None"
  shows
   "(\<exists>rest. trace (snd (readObject key st)) =
        trace (snd (binValidForReading True st)) @
        [FsExists (uri_full st key (metaPath st) @ OSG_EXT),
         FsMTime (uri_full st key (metaPath st) @ OSG_EXT),
         GateAcquire (uri_full st key (metaPath st))] @ rest @
        [GateRelease (uri_full st key (metaPath st))])
    \<and> (\<exists>rest. trace (snd (readImage key st)) =
        trace (snd (binValidForReading True st)) @
        [FsExists (uri_full st key (metaPath st) @ OSG_EXT),
         FsMTime (uri_full st key (metaPath st) @ OSG_EXT),
         GateAcquire (uri_full st key (metaPath st))] @ rest @
        [GateRelease (uri_full st key (metaPath st))])
    \<and> (threadPool st \<noteq> None \<and> writeCache st (uri_full st key (metaPath st)) = Some i \<longrightarrow>
         fst (readObject key st) =
           Found (Some (object i)) (meta i)
             (fst (getLastModifiedTime (uri_full st key (metaPath st) @ OSG_EXT) st))
       \<and> fst (readImage key st) =
           Found (if isImage (object i) then Some (object i) else None) (meta i)
             (fst (getLastModifiedTime (uri_full st key (metaPath st) @ OSG_EXT) st))
       \<and> trace (snd (readObject key st)) =
           trace (snd (binValidForReading True st)) @
           [FsExists (uri_full st key (metaPath st) @ OSG_EXT),
            FsMTime (uri_full st key (metaPath st) @ OSG_EXT),
            GateAcquire (uri_full st key (metaPath st)),
            OverlayFind (uri_full st key (metaPath st)),
            GateRelease (uri_full st key (metaPath st))]
       \<and> trace (snd (readImage key st)) = trace (snd (readObject key st)))"
  using assms
  by (auto simp: readObject_result readObject_trace readImage_result readImage_trace)

theorem overlay_read_inside_gate_witness:
  "fst (readObject ''alpha'' bin_pending) = Found (Some (Generic ''blob1'')) [(''k'', ''v'')] 0
   \<and> fst (readImage ''alpha'' bin_pending) = Found None [(''k'', ''v'')] 0
   \<and> trace (snd (readImage ''alpha'' bin_pending)) = trace (snd (readObject ''alpha'' bin_pending))"
proof -
  have v: "fst (binValidForReading True bin_pending)"
    by code_simp
  have u: "uri_full bin_pending ''alpha'' (metaPath bin_pending) = ''/tmp/c/bin/alpha''"
    by code_simp
  have f: "map_of (files bin_pending) ''/tmp/c/bin/alpha.osgb'' \<noteq> None"
    by code_simp
  have p: "threadPool bin_pending \<noteq> None"
    by code_simp
  have c: "writeCache bin_pending ''/tmp/c/bin/alpha''
             = Some \<lparr>meta = [(''k'', ''v'')], object = Generic ''blob1''\<rparr>"
    by code_simp
  have t: "fst (getLastModifiedTime ''/tmp/c/bin/alpha.osgb'' bin_pending) = 0"
    by code_simp
  show ?thesis
    using overlay_read_inside_gate [of bin_pending "''alpha''"
            "\<lparr>meta = [(''k'', ''v'')], object = Generic ''blob1''\<rparr>"] v u f p c t
    by (simp add: OSG_EXT_def)
qed

subsection \<open>C4: the status probe\<close>

text \<open>
  Claim C4 as amended. \<open>getRecordStatus(k)\<close> returns OK if and only if the bin is
  valid for reading and the primary file of \<open>k\<close> exists; it leaves the disk as it
  is and its only effect after the validity check is one existence check. If the
  read that follows returns a record then the status was OK. When the status is
  OK, the read that follows returns a record if and only if the bin has a pool
  whose overlay holds the key, or the file holds a serialized object.
\<close>

theorem status_probe_is_existence_check:
  "(fst (getRecordStatus key st) = STATUS_OK \<longleftrightarrow>
      fst (binValidForReading True st)
      \<and> map_of (files st) (uri_full st key (metaPath st) @ OSG_EXT) \<noteq> None)
   \<and> files (snd (getRecordStatus key st)) = files st
   \<and> trace (snd (getRecordStatus key st)) =
       trace (snd (binValidForReading True st)) @
       (if fst (binValidForReading True st)
        then [FsExists (uri_full st key (metaPath st) @ OSG_EXT)] else [])
   \<and> (fst (readObject key (snd (getRecordStatus key st))) \<noteq> RESULT_NOT_FOUND
        \<longrightarrow> fst (getRecordStatus key st) = STATUS_OK)
   \<and> (fst (getRecordStatus key st) = STATUS_OK \<longrightarrow>
        (fst (readObject key (snd (getRecordStatus key st))) \<noteq> RESULT_NOT_FOUND \<longleftrightarrow>
           (threadPool st \<noteq> None \<and> writeCache st (uri_full st key (metaPath st)) \<noteq> None)
           \<or> (\<exists>obj t. map_of (files st) (uri_full st key (metaPath st) @ OSG_EXT)
                        = Some (RegularFile (Serialized obj) t))))"
proof -
  have found: "fst (readObject key (snd (getRecordStatus key st))) \<noteq> RESULT_NOT_FOUND \<longleftrightarrow>
      fst (binValidForReading True st)
      \<and> map_of (files st) (uri_full st key (metaPath st) @ OSG_EXT) \<noteq> None
      \<and> ((threadPool st \<noteq> None \<and> writeCache st (uri_full st key (metaPath st)) \<noteq> None)
         \<or> fst (rw_readObject (uri_full st key (metaPath st) @ OSG_EXT) st) \<noteq> None)"
    by (auto simp: readObject_result getRecordStatus_then_valid rw_readObject_def
          split: option.splits)
  show ?thesis
    unfolding found rw_readObject_result
    by (simp add: getRecordStatus_result getRecordStatus_trace)
qed

text \<open>
  Claim C4 says that the status is OK if and only if the read that follows finds a
  record. On the example bin whose file for \<open>alpha\<close> does not hold a serialized
  object the status is OK and the read finds nothing.
\<close>

theorem status_probe_ok_read_fails:
  "fst (getRecordStatus ''alpha'' bin_corrupt) = STATUS_OK
   \<and> fst (readObject ''alpha'' (snd (getRecordStatus ''alpha'' bin_corrupt))) = RESULT_NOT_FOUND"
  by code_simp

theorem status_probe_is_existence_check_witness:
  "fst (getRecordStatus ''alpha'' bin_with_record) = STATUS_OK
   \<and> fst (readObject ''alpha'' (snd (getRecordStatus ''alpha'' bin_with_record))) \<noteq> RESULT_NOT_FOUND
   \<and> trace (snd (getRecordStatus ''alpha'' bin_with_record)) =
       [FsExists ''/tmp/c/bin'', FsExists ''/tmp/c/bin/alpha.osgb'']"
proof -
  have v: "fst (binValidForReading True bin_with_record)"
    by code_simp
  have u: "uri_full bin_with_record ''alpha'' (metaPath bin_with_record) = ''/tmp/c/bin/alpha''"
    by code_simp
  have f: "map_of (files bin_with_record) ''/tmp/c/bin/alpha.osgb''
             = Some (RegularFile (Serialized (Generic ''blob0'')) 3)"
    by code_simp
  have t: "trace (snd (binValidForReading True bin_with_record)) = [FsExists ''/tmp/c/bin'']"
    by code_simp
  show ?thesis
    using status_probe_is_existence_check [of "''alpha''" bin_with_record] v u f t
    by (simp add: OSG_EXT_def)
qed

subsection \<open>C6: remove is idempotent\<close>

text \<open>
  Claim C6. \<open>remove(k)\<close> of a key that has no file returns false and leaves the disk
  as it is. A second \<open>remove(k)\<close> right after the first returns false and leaves
  the bin and the disk as the first left them (only the trace grows). \<open>remove\<close>
  returns true exactly when the bin is valid for reading and the unlink of the
  primary file succeeds: nothing about the sidecar enters the result.
\<close>

theorem remove_idempotent:
  "(map_of (files st) (uri_full st key (metaPath st) @ OSG_EXT) = None
      \<longrightarrow> \<not> fst (remove key st) \<and> files (snd (remove key st)) = files st)
   \<and> \<not> fst (remove key (snd (remove key st)))
   \<and> (snd (remove key (snd (remove key st))))\<lparr>trace := []\<rparr> = (snd (remove key st))\<lparr>trace := []\<rparr>
   \<and> (fst (remove key st) \<longleftrightarrow>
        fst (binValidForReading True st)
        \<and> (\<exists>c t. map_of (files st) (uri_full st key (metaPath st) @ OSG_EXT) = Some (RegularFile c t))
        \<and> \<not> unlink_fails st (uri_full st key (metaPath st) @ OSG_EXT))"
proof -
  have absent: "\<not> fst (remove key st) \<and> files (snd (remove key st)) = files st"
    if "map_of (files st) (uri_full st key (metaPath st) @ OSG_EXT) = None"
    using that by (simp add: remove_result remove_files_list)
  show ?thesis
    using absent remove_twice_result [of key st] remove_twice_state [of key st]
          remove_result [of key st]
    by blast
qed

theorem remove_idempotent_witness:
  "\<not> fst (remove ''beta'' bin_with_record)
   \<and> files (snd (remove ''beta'' bin_with_record)) = files bin_with_record
   \<and> fst (remove ''alpha'' bin_with_record)
   \<and> \<not> fst (remove ''alpha'' (snd (remove ''alpha'' bin_with_record)))
   \<and> files (snd (remove ''alpha'' (snd (remove ''alpha'' bin_with_record))))
       = files (snd (remove ''alpha'' bin_with_record))"
proof -
  have v: "fst (binValidForReading True bin_with_record)"
    by code_simp
  have u: "uri_full bin_with_record ''alpha'' (metaPath bin_with_record) @ OSG_EXT = ''/tmp/c/bin/alpha.osgb''"
          "uri_full bin_with_record ''beta'' (metaPath bin_with_record) @ OSG_EXT = ''/tmp/c/bin/beta.osgb''"
    by code_simp+
  have f: "map_of (files bin_with_record) ''/tmp/c/bin/alpha.osgb''
             = Some (RegularFile (Serialized (Generic ''blob0'')) 3)"
          "map_of (files bin_with_record) ''/tmp/c/bin/beta.osgb'' = None"
    by code_simp+
  have d: "\<not> unlink_fails bin_with_record ''/tmp/c/bin/alpha.osgb''"
    by code_simp
  have "(snd (remove ''alpha'' (snd (remove ''alpha'' bin_with_record))))\<lparr>trace := []\<rparr>
          = (snd (remove ''alpha'' bin_with_record))\<lparr>trace := []\<rparr>"
    using remove_idempotent [of bin_with_record "''alpha''"] by blast
  then have "files ((snd (remove ''alpha'' (snd (remove ''alpha'' bin_with_record))))\<lparr>trace := []\<rparr>)
          = files ((snd (remove ''alpha'' bin_with_record))\<lparr>trace := []\<rparr>)"
    by (rule arg_cong)
  then have e: "files (snd (remove ''alpha'' (snd (remove ''alpha'' bin_with_record))))
          = files (snd (remove ''alpha'' bin_with_record))"
    by simp
  have a: "fst (remove ''alpha'' bin_with_record)
           \<and> \<not> fst (remove ''alpha'' (snd (remove ''alpha'' bin_with_record)))"
    using remove_idempotent [of bin_with_record "''alpha''"] v u f d by simp
  have b: "\<not> fst (remove ''beta'' bin_with_record)
           \<and> files (snd (remove ''beta'' bin_with_record)) = files bin_with_record"
    using remove_idempotent [of bin_with_record "''beta''"] u f by simp
  show ?thesis
    using a b e by simp
qed

subsection \<open>C10: remove leaves the sidecar\<close>

text \<open>
  Claim C10. The only unlink that \<open>remove(key)\<close> attempts is that of the primary
  file, inside the gate of the key; every other path of the disk, the \<open>.meta\<close>
  sidecar of the key in particular, is as before. So after a successful remove
  a sidecar that was there is still there, and when the key is then written again
  (on the calling thread, with empty metadata, so that no new sidecar is written)
  a read returns the new object with the metadata of the old sidecar.
\<close>

theorem remove_leaves_sidecar:
  "trace (snd (remove key st)) =
     trace (snd (binValidForReading True st)) @
     (if fst (binValidForReading True st)
      then [GateAcquire (uri_full st key (metaPath st)),
            FsUnlink (uri_full st key (metaPath st) @ OSG_EXT) (if fst (remove key st) then 0 else - 1),
            GateRelease (uri_full st key (metaPath st))]
      else [])
   \<and> (\<forall>q. q \<noteq> uri_full st key (metaPath st) @ OSG_EXT
          \<longrightarrow> map_of (files (snd (remove key st))) q = map_of (files st) q)
   \<and> map_of (files (snd (remove key st))) (uri_full st key (metaPath st) @ ''.meta'')
       = map_of (files st) (uri_full st key (metaPath st) @ ''.meta'')
   \<and> (fst (remove key st)
        \<and> map_of (files st) (uri_full st key (metaPath st) @ ''.meta'') = Some (RegularFile (Json m0) t0)
        \<and> (threadPool st = None \<or> isNode ob)
        \<and> \<not> write_fails st (uri_full st key (metaPath st) @ OSG_EXT)
      \<longrightarrow> fst (readObject key (snd (write_obj key (Some ob) [] (snd (remove key st)))))
            = Found (Some ob) m0 (clock st))"
proof -
  have side: "map_of (files (snd (remove key st))) (uri_full st key (metaPath st) @ ''.meta'')
       = map_of (files st) (uri_full st key (metaPath st) @ ''.meta'')"
    by (simp add: remove_files OSG_EXT_def)
  have stale: "fst (readObject key (snd (write_obj key (Some ob) [] (snd (remove key st)))))
            = Found (Some ob) m0 (clock st)"
    if r: "fst (remove key st)"
      and m: "map_of (files st) (uri_full st key (metaPath st) @ ''.meta'') = Some (RegularFile (Json m0) t0)"
      and p: "threadPool st = None \<or> isNode ob"
      and w: "\<not> write_fails st (uri_full st key (metaPath st) @ OSG_EXT)"
  proof -
    have v: "fst (binValidForReading True st)"
      using r by (simp add: remove_result)
    have flags: "rw (snd (remove key st))" "binPathExists (snd (remove key st))" "ok (snd (remove key st))"
      using binValidForReading_true [OF v] by simp_all
    have gone: "map_of (files (snd (remove key st))) (uri_full st key (metaPath st) @ OSG_EXT) = None"
      using r by (simp add: remove_files)
    show ?thesis
      using readObject_after_inline_write [of "snd (remove key st)" ob key m0 t0]
            flags gone side m p w
      by simp
  qed
  show ?thesis
    using side stale by (simp add: remove_trace remove_files)
qed

theorem remove_leaves_sidecar_witness:
  "fst (remove ''alpha'' bin_with_record)
   \<and> map_of (files (snd (remove ''alpha'' bin_with_record))) ''/tmp/c/bin/alpha.osgb'' = None
   \<and> map_of (files (snd (remove ''alpha'' bin_with_record))) ''/tmp/c/bin/alpha.meta''
        = Some (RegularFile (Json [(''k'', ''old'')]) 4)
   \<and> fst (readObject ''alpha''
            (snd (write_obj ''alpha'' (Some (Generic ''blob2'')) [] (snd (remove ''alpha'' bin_with_record)))))
        = Found (Some (Generic ''blob2'')) [(''k'', ''old'')] 5"
proof -
  have r: "fst (remove ''alpha'' bin_with_record)"
    by code_simp
  have g: "map_of (files (snd (remove ''alpha'' bin_with_record))) ''/tmp/c/bin/alpha.osgb'' = None"
    by code_simp
  have u: "uri_full bin_with_record ''alpha'' (metaPath bin_with_record) = ''/tmp/c/bin/alpha''"
    by code_simp
  have m: "map_of (files bin_with_record) ''/tmp/c/bin/alpha.meta''
             = Some (RegularFile (Json [(''k'', ''old'')]) 4)"
    by code_simp
  have p: "threadPool bin_with_record = None" "clock bin_with_record = 5"
          "\<not> write_fails bin_with_record ''/tmp/c/bin/alpha.osgb''"
    by code_simp+
  show ?thesis
    using remove_leaves_sidecar [of "''alpha''" bin_with_record "[(''k'', ''old'')]" 4 "Generic ''blob2''"]
          r g u m p
    by (simp add: OSG_EXT_def)
qed

subsection \<open>C7: the validity of the bin\<close>

text \<open>
  Claim C7 says of every bin that, while its directory has not been observed, each
  read-validity call checks the file system again, and that a later call that
  finds the directory makes the bin valid. On the example bin without a
  reader-writer the directory is on disk, and \<open>binValidForReading\<close> returns false
  without a file system call, the first time and the second time.
\<close>

theorem no_codec_never_checks:
  "map_of (files bin_no_codec) (binPath bin_no_codec) = Some Directory
   \<and> binValidForReading False bin_no_codec = (False, bin_no_codec\<lparr>ok := False\<rparr>)
   \<and> trace (snd (binValidForReading False (snd (binValidForReading False bin_no_codec)))) = []"
  by (simp add: bin_no_codec_def FileSystemCacheBin_def binValidForReading_def disk0_def
        concatPaths_def)

text \<open>
  Claim C7 as amended. For a bin that has a reader-writer: once the directory has
  been observed both flags are set, and then \<open>binValidForReading\<close> and
  \<open>binValidForWriting\<close> return true and change nothing: no file system call is
  made. While the directory has not been observed, each \<open>binValidForReading\<close>
  checks the file system once. If the directory is found (by the read check, or
  by the write check after it tried to create it) the bin becomes valid, also when
  it was reported invalid before. If it is not found the call returns false; in
  any run of such calls only the first can warn, and it does when it is not
  silent and the bin was still marked usable; every later call returns false.
  For a bin that has no reader-writer, whatever its flags and whatever the disk
  holds: \<open>binValidForReading\<close> and \<open>binValidForWriting\<close> return false and only
  clear the flag \<open>ok\<close>, so that they make no file system call, create no
  directory and print no warning; and so does every later call.
\<close>

theorem bin_validity_state_machine:
  "(rw st \<longrightarrow>
      (binPathExists st \<and> ok st \<longrightarrow>
         binValidForReading s st = (True, st) \<and> binValidForWriting s st = (True, st))
      \<and> (\<not> binPathExists st \<and> map_of (files st) (binPath st) \<noteq> None \<longrightarrow>
         binValidForReading s st =
           (True, (emit (FsExists (binPath st)) st)\<lparr>binPathExists := True, ok := True\<rparr>))
      \<and> (\<not> binPathExists st \<and> map_of (files (makeDirectoryForFile (metaPath st) st)) (binPath st) \<noteq> None \<longrightarrow>
         binValidForWriting s st =
           (True, (emit (FsExists (binPath st)) (makeDirectoryForFile (metaPath st) st))
                    \<lparr>binPathExists := True, ok := True\<rparr>))
      \<and> (\<not> binPathExists st \<and> map_of (files st) (binPath st) = None \<longrightarrow>
         binValidForReading s st =
           (False, (if ok st \<and> \<not> s
                    then emit (Warn ''Failed to locate cache bin'') (emit (FsExists (binPath st)) st)
                    else emit (FsExists (binPath st)) st)\<lparr>ok := False\<rparr>)
         \<and> ((\<lambda>x. snd (binValidForReading s x)) ^^ Suc n) st =
             st\<lparr>ok := False,
                trace := trace st @ [FsExists (binPath st)]
                         @ (if ok st \<and> \<not> s then [Warn ''Failed to locate cache bin''] else [])
                         @ replicate n (FsExists (binPath st))\<rparr>
         \<and> \<not> fst (binValidForReading s (((\<lambda>x. snd (binValidForReading s x)) ^^ Suc n) st))))
   \<and> (\<not> rw st \<longrightarrow>
        binValidForReading s st = (False, st\<lparr>ok := False\<rparr>)
        \<and> binValidForWriting s st = (False, st\<lparr>ok := False\<rparr>)
        \<and> binValidForReading s (st\<lparr>ok := False\<rparr>) = (False, st\<lparr>ok := False\<rparr>)
        \<and> binValidForWriting s (st\<lparr>ok := False\<rparr>) = (False, st\<lparr>ok := False\<rparr>)
        \<and> ((\<lambda>x. snd (binValidForReading s x)) ^^ Suc n) st = st\<lparr>ok := False\<rparr>)"
  (is "(_ \<longrightarrow> ?valid) \<and> (_ \<longrightarrow> ?invalid)")
proof (rule conjI; rule impI)
  assume r: "rw st"
  have cached: "binValidForReading s st = (True, st) \<and> binValidForWriting s st = (True, st)"
    if "binPathExists st" "ok st"
    using r that by (simp add: binValidForReading_cached binValidForWriting_cached)
  have seq: "((\<lambda>x. snd (binValidForReading s x)) ^^ Suc n) st =
           st\<lparr>ok := False,
              trace := trace st @ [FsExists (binPath st)]
                       @ (if ok st \<and> \<not> s then [Warn ''Failed to locate cache bin''] else [])
                       @ replicate n (FsExists (binPath st))\<rparr>"
    if m: "\<not> binPathExists st" "map_of (files st) (binPath st) = None"
  proof -
    let ?st1 = "snd (binValidForReading s st)"
    have st1: "?st1 = st\<lparr>ok := False,
                 trace := trace st @ [FsExists (binPath st)]
                       @ (if ok st \<and> \<not> s then [Warn ''Failed to locate cache bin''] else [])\<rparr>"
      using r m by (simp add: binValidForReading_missing emit_def)
    have "((\<lambda>x. snd (binValidForReading s x)) ^^ Suc n) st =
            ((\<lambda>x. snd (binValidForReading s x)) ^^ n) ?st1"
      by (simp only: funpow_Suc_right o_apply)
    also have "\<dots> = ?st1\<lparr>trace := trace ?st1 @ replicate n (FsExists (binPath ?st1))\<rparr>"
      using r m by (intro repeated_misses) (simp_all add: st1)
    also have "\<dots> = st\<lparr>ok := False,
              trace := trace st @ [FsExists (binPath st)]
                       @ (if ok st \<and> \<not> s then [Warn ''Failed to locate cache bin''] else [])
                       @ replicate n (FsExists (binPath st))\<rparr>"
      by (simp add: st1)
    finally show ?thesis .
  qed
  have still: "\<not> fst (binValidForReading s (((\<lambda>x. snd (binValidForReading s x)) ^^ Suc n) st))"
    if m: "\<not> binPathExists st" "map_of (files st) (binPath st) = None"
    unfolding seq [OF m]
    using r m by (simp add: binValidForReading_missing)
  show ?valid
    using cached seq still r
    by (simp add: binValidForReading_found binValidForWriting_found binValidForReading_missing)
next
  assume nr: "\<not> rw st"
  have "\<not> rw (st\<lparr>ok := False\<rparr>)"
    using nr by simp
  then show ?invalid
    using nr
    by (simp add: binValidForReading_no_codec binValidForWriting_no_codec repeated_no_codec
          del: funpow.simps)
qed

text \<open>
  On the example bins: a bin whose directory is missing warns once in three
  calls, becomes valid when the directory is found or when the write check has
  created it, and a valid bin is not checked again; the bin without a
  reader-writer, whose directory is on disk, is not
  valid for reading nor for writing, and its trace stays empty.
\<close>

theorem bin_validity_state_machine_witness:
  "binValidForReading False bin_no_directory =
     (False, bin_no_directory\<lparr>ok := False,
               trace := [FsExists ''/tmp/c/bin'', Warn ''Failed to locate cache bin'']\<rparr>)
   \<and> trace (((\<lambda>x. snd (binValidForReading False x)) ^^ Suc (Suc (Suc 0))) bin_no_directory) =
       [FsExists ''/tmp/c/bin'', Warn ''Failed to locate cache bin'',
        FsExists ''/tmp/c/bin'', FsExists ''/tmp/c/bin'']
   \<and> fst (binValidForReading True (bin_no_directory\<lparr>ok := False, files := disk0\<rparr>))
   \<and> binValidForReading True (snd (binValidForReading True bin_inline))
       = (True, snd (binValidForReading True bin_inline))
   \<and> fst (binValidForWriting True bin_no_directory)
   \<and> map_of (files (snd (binValidForWriting True bin_no_directory))) ''/tmp/c/bin'' = Some Directory
   \<and> trace (snd (binValidForWriting True bin_no_directory))
       = [FsMkdir ''/tmp/c/bin'', FsExists ''/tmp/c/bin'']
   \<and> \<not> rw bin_no_codec
   \<and> binValidForWriting False bin_no_codec = (False, bin_no_codec\<lparr>ok := False\<rparr>)
   \<and> trace (((\<lambda>x. snd (binValidForReading False x)) ^^ Suc (Suc (Suc 0))) bin_no_codec) = []
   \<and> files (((\<lambda>x. snd (binValidForReading False x)) ^^ Suc (Suc (Suc 0))) bin_no_codec) = disk0"
proof -
  have r: "rw bin_no_directory" "\<not> binPathExists bin_no_directory" "ok bin_no_directory"
          "binPath bin_no_directory = ''/tmp/c/bin''"
          "map_of (files bin_no_directory) ''/tmp/c/bin'' = None" "trace bin_no_directory = []"
    by (simp_all add: bin_no_directory_def FileSystemCacheBin_def concatPaths_def)
  have a: "binValidForReading False bin_no_directory =
     (False, bin_no_directory\<lparr>ok := False,
               trace := [FsExists ''/tmp/c/bin'', Warn ''Failed to locate cache bin'']\<rparr>)"
    using bin_validity_state_machine [of bin_no_directory False 0] r by (simp add: emit_def)
  have b: "trace (((\<lambda>x. snd (binValidForReading False x)) ^^ Suc (Suc (Suc 0))) bin_no_directory) =
       [FsExists ''/tmp/c/bin'', Warn ''Failed to locate cache bin'',
        FsExists ''/tmp/c/bin'', FsExists ''/tmp/c/bin'']"
    using bin_validity_state_machine [of bin_no_directory False "Suc (Suc 0)"] r
    by (simp del: funpow.simps)
  let ?restored = "bin_no_directory\<lparr>ok := False, files := disk0\<rparr>"
  have c: "fst (binValidForReading True ?restored)"
    using bin_validity_state_machine [of ?restored True 0] r
    by (simp add: disk0_def)
  let ?seen = "snd (binValidForReading True bin_inline)"
  have s: "rw ?seen" "binPathExists ?seen" "ok ?seen"
    by code_simp+
  have d: "binValidForReading True ?seen = (True, ?seen)"
    using bin_validity_state_machine [of ?seen True 0] s by simp
  have w: "map_of (files (makeDirectoryForFile (metaPath bin_no_directory) bin_no_directory))
             (binPath bin_no_directory) \<noteq> None"
    by code_simp
  have w': "map_of (files ((emit (FsExists (binPath bin_no_directory))
              (makeDirectoryForFile (metaPath bin_no_directory) bin_no_directory))
               \<lparr>binPathExists := True, ok := True\<rparr>)) ''/tmp/c/bin'' = Some Directory"
    "trace ((emit (FsExists (binPath bin_no_directory))
              (makeDirectoryForFile (metaPath bin_no_directory) bin_no_directory))
               \<lparr>binPathExists := True, ok := True\<rparr>)
       = [FsMkdir ''/tmp/c/bin'', FsExists ''/tmp/c/bin'']"
    by code_simp+
  have ww: "binValidForWriting True bin_no_directory =
       (True, (emit (FsExists (binPath bin_no_directory))
              (makeDirectoryForFile (metaPath bin_no_directory) bin_no_directory))
               \<lparr>binPathExists := True, ok := True\<rparr>)"
    using bin_validity_state_machine [of bin_no_directory True 0] r(1,2) w by simp
  have www: "fst (binValidForWriting True bin_no_directory)"
    "map_of (files (snd (binValidForWriting True bin_no_directory))) ''/tmp/c/bin'' = Some Directory"
    "trace (snd (binValidForWriting True bin_no_directory))
       = [FsMkdir ''/tmp/c/bin'', FsExists ''/tmp/c/bin'']"
    unfolding ww using w' by simp_all
  have k: "\<not> rw bin_no_codec" "trace bin_no_codec = []" "files bin_no_codec = disk0"
    by (simp_all add: bin_no_codec_def FileSystemCacheBin_def)
  have e: "binValidForWriting False bin_no_codec = (False, bin_no_codec\<lparr>ok := False\<rparr>)"
    using bin_validity_state_machine [of bin_no_codec False 0] k(1) by simp
  have f: "((\<lambda>x. snd (binValidForReading False x)) ^^ Suc (Suc (Suc 0))) bin_no_codec
             = bin_no_codec\<lparr>ok := False\<rparr>"
    using bin_validity_state_machine [of bin_no_codec False "Suc (Suc 0)"] k(1)
    by (simp del: funpow.simps)
  show ?thesis
    using a b c d e k www unfolding f by simp
qed

subsection \<open>C5: clear\<close>



end
